theory Spec2Isabelle
  imports Main
begin

section \<open>The route tree of go-api\<close>

text \<open>
  The development embeds the routing core of the repository: the registration side
  (\<open>Route\<close>, \<open>Group\<close>, \<open>addRoute\<close>, \<open>getPathSegment\<close>,
  \<open>getRouteTypeFromSegment\<close>, \<open>isPathParam\<close>, \<open>isWildcard\<close>, package
  \<open>engine/internal/routes\<close>) and the lookup side (\<open>Find\<close>, \<open>find\<close>,
  \<open>collectMiddlewares\<close>, \<open>NewRouteNode\<close>, file \<open>internal/routes/route.go\<close>).

  Go strings are byte strings: \<open>string\<close> (a list of \<open>char\<close>). A handler is an opaque
  value of type \<open>'h\<close>; a Go \<open>HandlerFunc\<close> may be \<open>nil\<close>, so a handler value is an
  \<open>'h option\<close> with \<open>None\<close> for \<open>nil\<close>. A middleware is an opaque value of type \<open>'m\<close>.

  The parameters \<open>method\<close> and \<open>path\<close> of the Go functions are written \<open>verb\<close> and \<open>pth\<close>:
  the first is a keyword of Isabelle and the second is the name of the field of the node.
\<close>

subsection \<open>Data\<close>

datatype RouteType = RouteTypeNone | RouteTypeStatic | RouteTypeParam | RouteTypeWildcard

datatype error = ErrRouteNotFound | ErrRouteAlreadyExists | ErrRouteMalformedPath

datatype RouteError = NewRouteError (errMethod: string) (errPath: string) (Err: error)

record ('h, 'm) Route =
  Method :: string
  Path :: string
  Handler :: "'h option"
  Middlewares :: "'m list"
  PathParams :: "string \<rightharpoonup> string"

text \<open>
  A \<open>RouteNode\<close> owns its children, so the tree is a datatype. The fields are the ones of
  the Go struct except \<open>parent\<close>: the parent pointer of a node is represented by the list
  of its ancestors, nearest first, which the functions that read \<open>parent\<close> take as an
  argument. \<open>addRoute\<close> is the only code that creates nodes, and it stores every node it
  creates in a child field of the node it passes as the parent, so the ancestors of a
  node met on the way down from the root are the nodes passed on that way.
\<close>

datatype ('h, 'm) RouteNode = RouteNode
  (path: string)
  (routeType: RouteType)
  (paramName: string)
  (handlers: "string \<rightharpoonup> 'h option")
  (middlewares: "'m list")
  (static: "('h, 'm) RouteNode list")
  (param: "('h, 'm) RouteNode option")
  (wildcard: "('h, 'm) RouteNode option")

definition NewRouteNode :: "string \<Rightarrow> RouteType \<Rightarrow> string \<Rightarrow> ('h, 'm) RouteNode" where
  "NewRouteNode pth rt pname = RouteNode pth rt pname Map.empty [] [] None None"

text \<open>Assignments to single fields of a node.\<close>

primrec set_handlers :: "(string \<rightharpoonup> 'h option) \<Rightarrow> ('h, 'm) RouteNode \<Rightarrow> ('h, 'm) RouteNode" where
  "set_handlers v (RouteNode p t pn hs ms st pa wc) = RouteNode p t pn v ms st pa wc"

primrec set_middlewares :: "'m list \<Rightarrow> ('h, 'm) RouteNode \<Rightarrow> ('h, 'm) RouteNode" where
  "set_middlewares v (RouteNode p t pn hs ms st pa wc) = RouteNode p t pn hs v st pa wc"

primrec set_static :: "('h, 'm) RouteNode list \<Rightarrow> ('h, 'm) RouteNode \<Rightarrow> ('h, 'm) RouteNode" where
  "set_static v (RouteNode p t pn hs ms st pa wc) = RouteNode p t pn hs ms v pa wc"

primrec set_param :: "('h, 'm) RouteNode option \<Rightarrow> ('h, 'm) RouteNode \<Rightarrow> ('h, 'm) RouteNode" where
  "set_param v (RouteNode p t pn hs ms st pa wc) = RouteNode p t pn hs ms st v wc"

primrec set_wildcard :: "('h, 'm) RouteNode option \<Rightarrow> ('h, 'm) RouteNode \<Rightarrow> ('h, 'm) RouteNode" where
  "set_wildcard v (RouteNode p t pn hs ms st pa wc) = RouteNode p t pn hs ms st pa v"

text \<open>
  A \<open>*RouteNode\<close> result is the position of the node below the node the method was called
  on: the child links to follow, in order.
\<close>

datatype child_ref = StaticChild nat | ParamChild | WildcardChild

type_synonym node_ref = "child_ref list"

subsection \<open>Segments\<close>

text \<open>\<open>strings.SplitN(s, "/", 2)\<close>: the text before the first slash and the text after it,
  or \<open>s\<close> alone when it has no slash.\<close>

definition SplitN2 :: "string \<Rightarrow> string list" where
  "SplitN2 s =
     (if CHR ''/'' \<in> set s
      then [takeWhile (\<lambda>c. c \<noteq> CHR ''/'') s, tl (dropWhile (\<lambda>c. c \<noteq> CHR ''/'') s)]
      else [s])"

definition getPathSegment :: "string \<Rightarrow> string \<times> string" where
  "getPathSegment pth =
     (let segments = SplitN2 pth in
      if length segments = 0 then ([], [])
      else
        let segment = segments ! 0;
            remaining =
              (if length segments > 1
               then (let remaining = segments ! 1
                     in if remaining \<noteq> [] then ''/'' @ remaining else remaining)
               else [])
        in (segment, remaining))"

text \<open>The pattern \<^verbatim>\<open>^\{[^}]*\}$\<close>: an opening brace, any bytes but a closing brace, a
  closing brace at the end.\<close>

definition isPathParam :: "string \<Rightarrow> bool" where
  "isPathParam segment =
     (case segment of
        [] \<Rightarrow> False
      | c # cs \<Rightarrow> c = CHR ''{'' \<and> cs \<noteq> [] \<and> last cs = CHR ''}'' \<and> CHR ''}'' \<notin> set (butlast cs))"

text \<open>The pattern \<^verbatim>\<open>^\*[^/]*$\<close>: a star, then any bytes but a slash.\<close>

definition isWildcard :: "string \<Rightarrow> bool" where
  "isWildcard segment =
     (case segment of [] \<Rightarrow> False | c # cs \<Rightarrow> c = CHR ''*'' \<and> CHR ''/'' \<notin> set cs)"

definition getRouteTypeFromSegment :: "string \<Rightarrow> RouteType \<times> string" where
  "getRouteTypeFromSegment segment =
     (if isPathParam segment then (RouteTypeParam, drop 1 (take (length segment - 1) segment))
      else if isWildcard segment then (RouteTypeWildcard, drop 1 segment)
      else (RouteTypeStatic, []))"

text \<open>\<open>if path[0] == '/' { path = path[1:] }\<close>, on a path that is not empty.\<close>

definition stripSlash :: "string \<Rightarrow> string" where
  "stripSlash pth = (if hd pth = CHR ''/'' then tl pth else pth)"

text \<open>The loop over \<open>n.static\<close> that stops at the first child whose \<open>path\<close> is the
  segment: the index of that child.\<close>

fun staticIndex :: "string \<Rightarrow> ('h, 'm) RouteNode list \<Rightarrow> nat option" where
  "staticIndex segment [] = None"
| "staticIndex segment (child # rest) =
     (if path child = segment then Some 0 else map_option Suc (staticIndex segment rest))"

lemma getPathSegment_shorter:
  assumes "pth \<noteq> []" and "pth \<noteq> ''/''" and "getPathSegment (stripSlash pth) = (segment, remaining)"
  shows "length remaining < length pth"
proof -
  let ?q = "stripSlash pth"
  have le: "length ?q \<le> length pth"
    by (simp add: stripSlash_def)
  have lt: "hd pth = CHR ''/'' \<Longrightarrow> length ?q < length pth"
    using assms(1) by (simp add: stripSlash_def)
  show ?thesis
  proof (cases "CHR ''/'' \<in> set ?q")
    case False
    then have "remaining = []"
      using assms(3) by (simp add: getPathSegment_def SplitN2_def)
    with assms(1) show ?thesis by simp
  next
    case True
    let ?a = "takeWhile (\<lambda>c. c \<noteq> CHR ''/'') ?q"
    let ?b = "dropWhile (\<lambda>c. c \<noteq> CHR ''/'') ?q"
    have bne: "?b \<noteq> []"
      using True by (simp add: dropWhile_eq_Nil_conv)
    have len: "length ?q = length ?a + length ?b"
      by (metis length_append takeWhile_dropWhile_id)
    have rem: "length remaining \<le> length ?b"
      using assms(3) True bne by (auto simp: getPathSegment_def SplitN2_def Let_def split: if_splits)
    show ?thesis
    proof (cases "hd pth = CHR ''/''")
      case True
      with lt len rem show ?thesis by simp
    next
      case False
      then have "?q = pth" by (simp add: stripSlash_def)
      moreover have "?a \<noteq> []"
        using False assms(1) \<open>?q = pth\<close> by (cases pth) auto
      ultimately show ?thesis
        using len rem by (cases ?a) auto
    qed
  qed
qed

subsection \<open>Registration\<close>

function addRoute ::
  "('h, 'm) RouteNode \<Rightarrow> string \<Rightarrow> string \<Rightarrow> 'h option \<Rightarrow> 'm list \<Rightarrow>
   ('h, 'm) RouteNode \<times> (error + node_ref)" where
  "addRoute n verb pth handler mws =
     (if pth = [] \<or> pth = ''/'' then
        (case handlers n verb of
           Some _ \<Rightarrow> (n, Inl ErrRouteAlreadyExists)
         | None \<Rightarrow>
             (let n = set_middlewares (middlewares n @ mws) n;
                  n = set_handlers ((handlers n)(verb \<mapsto> handler)) n
              in (n, Inr [])))
      else
        (case getPathSegment (stripSlash pth) of (segment, remaining) \<Rightarrow>
         case getRouteTypeFromSegment segment of (rt, pname) \<Rightarrow>
           if rt = RouteTypeParam then
             (let n = (if param n = None
                       then set_param (Some (NewRouteNode segment rt pname)) n else n)
              in case addRoute (the (param n)) verb remaining handler mws of
                   (child, res) \<Rightarrow> (set_param (Some child) n, map_sum id (Cons ParamChild) res))
           else if rt = RouteTypeWildcard then
             (let n = (if wildcard n = None
                       then set_wildcard (Some (NewRouteNode segment rt pname)) n else n)
              in case addRoute (the (wildcard n)) verb remaining handler mws of
                   (child, res) \<Rightarrow>
                     (set_wildcard (Some child) n, map_sum id (Cons WildcardChild) res))
           else
             (case staticIndex segment (static n) of
                Some i \<Rightarrow>
                  (case addRoute (static n ! i) verb remaining handler mws of
                     (child, res) \<Rightarrow>
                       (set_static ((static n)[i := child]) n,
                        map_sum id (Cons (StaticChild i)) res))
              | None \<Rightarrow>
                  (let n = set_static (static n @ [NewRouteNode segment RouteTypeStatic []]) n;
                       i = length (static n) - 1
                   in case addRoute (static n ! i) verb remaining handler mws of
                        (child, res) \<Rightarrow>
                          (set_static ((static n)[i := child]) n,
                           map_sum id (Cons (StaticChild i)) res)))))"
  by pat_completeness auto
termination
  by (relation "measure (\<lambda>(n, verb, pth, handler, mws). length pth)")
     (auto dest: getPathSegment_shorter [OF _ _ sym])

definition Route ::
  "('h, 'm) RouteNode \<Rightarrow> string \<Rightarrow> string \<Rightarrow> 'h option \<Rightarrow> 'm list \<Rightarrow>
   ('h, 'm) RouteNode \<times> (RouteError + node_ref)" where
  "Route n verb pth handler mws =
     (case addRoute n verb pth handler mws of
        (n, Inl err) \<Rightarrow> (n, Inl (NewRouteError verb pth err))
      | (n, Inr child) \<Rightarrow> (n, Inr child))"

definition Group ::
  "('h, 'm) RouteNode \<Rightarrow> string \<Rightarrow> 'm list \<Rightarrow> ('h, 'm) RouteNode \<times> (RouteError + node_ref)" where
  "Group n prefix mws = Route n [] prefix None mws"

definition Use :: "('h, 'm) RouteNode \<Rightarrow> 'm list \<Rightarrow> ('h, 'm) RouteNode" where
  "Use n mws = set_middlewares (middlewares n @ mws) n"

text \<open>
  A method called through a node pointer obtained earlier (the result of \<open>Route\<close> or
  \<open>Group\<close>) works on the node at that position of the tree: \<open>nodeAt\<close> reads it and
  \<open>putAt\<close> writes it back. \<open>nodeAt\<close> is \<open>None\<close> where the tree has no such node.
\<close>

fun nodeAt :: "('h, 'm) RouteNode \<Rightarrow> node_ref \<Rightarrow> ('h, 'm) RouteNode option" where
  "nodeAt n [] = Some n"
| "nodeAt n (StaticChild i # r) =
     (if i < length (static n) then nodeAt (static n ! i) r else None)"
| "nodeAt n (ParamChild # r) = (case param n of None \<Rightarrow> None | Some c \<Rightarrow> nodeAt c r)"
| "nodeAt n (WildcardChild # r) = (case wildcard n of None \<Rightarrow> None | Some c \<Rightarrow> nodeAt c r)"

fun putAt :: "('h, 'm) RouteNode \<Rightarrow> node_ref \<Rightarrow> ('h, 'm) RouteNode \<Rightarrow> ('h, 'm) RouteNode" where
  "putAt n [] v = v"
| "putAt n (StaticChild i # r) v =
     (if i < length (static n) then set_static ((static n)[i := putAt (static n ! i) r v]) n
      else n)"
| "putAt n (ParamChild # r) v =
     (case param n of None \<Rightarrow> n | Some c \<Rightarrow> set_param (Some (putAt c r v)) n)"
| "putAt n (WildcardChild # r) v =
     (case wildcard n of None \<Rightarrow> n | Some c \<Rightarrow> set_wildcard (Some (putAt c r v)) n)"

text \<open>\<open>g.Route(...)\<close> for the node \<open>g\<close> at position \<open>ref\<close> of the tree \<open>root\<close>;
  \<open>None\<close> is the nil pointer dereference of a call on a node that is not there.\<close>

definition RouteAt ::
  "('h, 'm) RouteNode \<Rightarrow> node_ref \<Rightarrow> string \<Rightarrow> string \<Rightarrow> 'h option \<Rightarrow> 'm list \<Rightarrow>
   (('h, 'm) RouteNode \<times> (RouteError + node_ref)) option" where
  "RouteAt root ref verb pth handler mws =
     (case nodeAt root ref of
        None \<Rightarrow> None
      | Some g \<Rightarrow>
          (case Route g verb pth handler mws of
             (g, res) \<Rightarrow> Some (putAt root ref g, map_sum id (\<lambda>child. ref @ child) res)))"

subsection \<open>Lookup\<close>

text \<open>\<open>maps.Copy(dst, src)\<close> writes every entry of \<open>src\<close> into \<open>dst\<close>.\<close>

definition maps_Copy :: "('k \<rightharpoonup> 'v) \<Rightarrow> ('k \<rightharpoonup> 'v) \<Rightarrow> ('k \<rightharpoonup> 'v)" where
  "maps_Copy dst src = dst ++ src"

text \<open>\<open>collectMiddlewares\<close> of a node whose ancestors are \<open>parents\<close>, nearest first; the
  third argument is the slice the pointer argument refers to.\<close>

fun collectMiddlewares ::
  "('h, 'm) RouteNode \<Rightarrow> ('h, 'm) RouteNode list \<Rightarrow> 'm list \<Rightarrow> 'm list" where
  "collectMiddlewares n [] mws = mws @ middlewares n"
| "collectMiddlewares n (parent # parents) mws =
     (let mws = collectMiddlewares parent parents mws in mws @ middlewares n)"

text \<open>The first static child whose \<open>path\<close> is the segment.\<close>

definition staticMatch :: "string \<Rightarrow> ('h, 'm) RouteNode list \<Rightarrow> ('h, 'm) RouteNode option" where
  "staticMatch segment children = map_option (\<lambda>i. children ! i) (staticIndex segment children)"

text \<open>
  \<open>find\<close> works on the \<open>Route\<close> its pointer argument refers to: the model (named
  \<open>find_node\<close>, since \<open>find\<close> is a list function of HOL) takes that \<open>Route\<close> and returns
  it as the call leaves it, with the error (\<open>None\<close> for \<open>nil\<close>). On success the Go
  function returns the same pointer. In the parameter step, \<open>Inl\<close> stands for the
  \<open>return result, nil\<close> inside the \<open>if n.param != nil\<close> block and \<open>Inr\<close> for control
  reaching the wildcard check.
\<close>

function find_node ::
  "('h, 'm) RouteNode \<Rightarrow> ('h, 'm) RouteNode list \<Rightarrow> ('h, 'm) Route \<Rightarrow> string \<Rightarrow> string \<Rightarrow>
   ('h, 'm) Route \<times> error option" where
  "find_node n parents route verb pth =
     (if pth = [] \<or> pth = ''/'' then
        (case handlers n verb of
           None \<Rightarrow> (route, Some ErrRouteNotFound)
         | Some handler \<Rightarrow>
             (let route = route\<lparr>Method := verb\<rparr>;
                  route = route\<lparr>Handler := handler\<rparr>;
                  route = route\<lparr>Middlewares := collectMiddlewares n parents (Middlewares route)\<rparr>
              in (route, None)))
      else
        (case getPathSegment (stripSlash pth) of (segment, remaining) \<Rightarrow>
         case staticMatch segment (static n) of
           Some child \<Rightarrow> find_node child (n # parents) route verb remaining
         | None \<Rightarrow>
             (case (case param n of
                      None \<Rightarrow> Inr route
                    | Some p \<Rightarrow>
                        (let originalPathParams = Map.empty;
                             copied = maps_Copy (PathParams route) originalPathParams;
                             route = route\<lparr>PathParams := copied\<rparr>;
                             bound = (PathParams route)(paramName p \<mapsto> segment);
                             route = route\<lparr>PathParams := bound\<rparr>
                         in case find_node p (n # parents) route verb remaining of
                              (route, None) \<Rightarrow> Inl route
                            | (route, Some err) \<Rightarrow>
                                Inr (route\<lparr>PathParams := originalPathParams\<rparr>))) of
                Inl route \<Rightarrow> (route, None)
              | Inr route \<Rightarrow>
                  (case wildcard n of
                     Some w \<Rightarrow>
                       (let wildcardValue = segment;
                            wildcardValue =
                              (if remaining \<noteq> [] then wildcardValue @ remaining else wildcardValue);
                            bound = (PathParams route)(paramName w \<mapsto> wildcardValue);
                            route = route\<lparr>PathParams := bound\<rparr>
                        in find_node w (n # parents) route verb [])
                   | None \<Rightarrow> (route, Some ErrRouteNotFound)))))"
  by pat_completeness auto
termination
  by (relation "measure (\<lambda>(n, parents, route, verb, pth). length pth)")
     (auto dest: getPathSegment_shorter [OF _ _ sym])

definition Find :: "('h, 'm) RouteNode \<Rightarrow> string \<Rightarrow> string \<Rightarrow> RouteError + ('h, 'm) Route" where
  "Find n verb pth =
     (let route = \<lparr>Method = verb, Path = pth, Handler = None, Middlewares = [],
                   PathParams = Map.empty\<rparr>
      in case find_node n [] route verb pth of
           (route, Some err) \<Rightarrow> Inl (NewRouteError verb pth err)
         | (route, None) \<Rightarrow> Inr route)"

declare addRoute.simps [simp del] find_node.simps [simp del]

section \<open>Notions used to state the claims\<close>



text \<open>\<open>descends n nodes\<close>: the nodes are a way down from \<open>n\<close>, each one a child (static,
  parameter or wildcard) of the one before.\<close>

fun descends :: "('h, 'm) RouteNode \<Rightarrow> ('h, 'm) RouteNode list \<Rightarrow> bool" where
  "descends n [] = True"
| "descends n (c # cs) =
     ((c \<in> set (static n) \<or> param n = Some c \<or> wildcard n = Some c) \<and> descends c cs)"

text \<open>The children of a node, of all three categories.\<close>

definition children :: "('h, 'm) RouteNode \<Rightarrow> ('h, 'm) RouteNode list" where
  "children n =
     static n @ (case param n of None \<Rightarrow> [] | Some c \<Rightarrow> [c]) @
     (case wildcard n of None \<Rightarrow> [] | Some c \<Rightarrow> [c])"

text \<open>\<open>everywhere P n\<close>: \<open>P\<close> holds at \<open>n\<close> and at every node below it.\<close>

fun everywhere :: "(('h, 'm) RouteNode \<Rightarrow> bool) \<Rightarrow> ('h, 'm) RouteNode \<Rightarrow> bool" where
  "everywhere P (RouteNode p t pn hs ms st pa wc) =
     (P (RouteNode p t pn hs ms st pa wc) \<and> list_all (everywhere P) st \<and>
      (case pa of None \<Rightarrow> True | Some c \<Rightarrow> everywhere P c) \<and>
      (case wc of None \<Rightarrow> True | Some c \<Rightarrow> everywhere P c))"

text \<open>The invariant of the claim at one node, the kind of a child read from its
  \<open>routeType\<close>: at most one parameter child, at most one wildcard child, and static
  children with distinct texts.\<close>

definition node_invariant :: "('h, 'm) RouteNode \<Rightarrow> bool" where
  "node_invariant n =
     (length (filter (\<lambda>c. routeType c = RouteTypeParam) (children n)) \<le> 1 \<and>
      length (filter (\<lambda>c. routeType c = RouteTypeWildcard) (children n)) \<le> 1 \<and>
      distinct (map path (filter (\<lambda>c. routeType c = RouteTypeStatic) (children n))))"

text \<open>What the code maintains: every child field holds children of its own kind, and the
  texts of the static children are distinct.\<close>

definition node_ok :: "('h, 'm) RouteNode \<Rightarrow> bool" where
  "node_ok n =
     (distinct (map path (static n)) \<and>
      list_all (\<lambda>c. routeType c = RouteTypeStatic) (static n) \<and>
      (case param n of None \<Rightarrow> True | Some c \<Rightarrow> routeType c = RouteTypeParam) \<and>
      (case wildcard n of None \<Rightarrow> True | Some c \<Rightarrow> routeType c = RouteTypeWildcard))"

text \<open>The trees built from a fresh root (\<open>NewRouteNode("", RouteTypeNone, "", nil)\<close>, as
  \<open>engine.New\<close> makes it) by registrations on the root or on a node obtained earlier
  (a group).\<close>

inductive reachable :: "('h, 'm) RouteNode \<Rightarrow> bool" where
  fresh: "reachable (NewRouteNode [] RouteTypeNone [])"
| insert: "reachable t \<Longrightarrow> Route t verb pth handler mws = (t', res) \<Longrightarrow> reachable t'"
| insert_at:
    "reachable t \<Longrightarrow> RouteAt t ref verb pth handler mws = Some (t', res) \<Longrightarrow> reachable t'"

text \<open>
  \<open>Group\<close> registers the prefix with the empty verb and a \<open>nil\<close> handler, which leaves an
  entry for the empty verb at the group node. \<open>forget_empty_verb\<close> removes the entries of
  the empty verb from every node: two trees with the same image differ in such entries
  only.
\<close>

fun forget_empty_verb :: "('h, 'm) RouteNode \<Rightarrow> ('h, 'm) RouteNode" where
  "forget_empty_verb (RouteNode p t pn hs ms st pa wc) =
     RouteNode p t pn (hs([] := None)) ms (map forget_empty_verb st)
       (map_option forget_empty_verb pa) (map_option forget_empty_verb wc)"

text \<open>
  The node at which \<open>addRoute\<close> installs the handler of a path, when the tree has it
  already: the walk of \<open>addRoute\<close> (the segment classified, the parameter child, the
  wildcard child, or the first static child with the text of the segment) where no node
  has to be created, \<open>None\<close> where one has.
\<close>

function destination :: "('h, 'm) RouteNode \<Rightarrow> string \<Rightarrow> ('h, 'm) RouteNode option" where
  "destination n pth =
     (if pth = [] \<or> pth = ''/'' then Some n
      else
        (case getPathSegment (stripSlash pth) of (segment, remaining) \<Rightarrow>
         case getRouteTypeFromSegment segment of (rt, pname) \<Rightarrow>
           if rt = RouteTypeParam then
             (case param n of None \<Rightarrow> None | Some c \<Rightarrow> destination c remaining)
           else if rt = RouteTypeWildcard then
             (case wildcard n of None \<Rightarrow> None | Some c \<Rightarrow> destination c remaining)
           else
             (case staticIndex segment (static n) of
                None \<Rightarrow> None
              | Some i \<Rightarrow> destination (static n ! i) remaining)))"
  by pat_completeness auto
termination
  by (relation "measure (\<lambda>(n, pth). length pth)")
     (auto dest: getPathSegment_shorter [OF _ _ sym])

declare destination.simps [simp del]

text \<open>
  \<open>meets prefix p\<close>: where the prefix and the path are both not empty, exactly one slash
  stands where they meet, as the last character of the prefix or as the first of the
  path.
\<close>

definition meets :: "string \<Rightarrow> string \<Rightarrow> bool" where
  "meets prefix p =
     (prefix = [] \<or> p = [] \<or> (last prefix = CHR ''/'') \<noteq> (hd p = CHR ''/''))"

text \<open>
  \<open>addRoute\<close> with the classifier of a segment as a parameter, and nothing else changed:
  with \<open>getRouteTypeFromSegment\<close> it is \<open>addRoute\<close>. The spec leaves the convention by
  which a parameter segment is written to the implementation, and the two variants of
  the package differ in it.
\<close>

function addRouteWith ::
  "(string \<Rightarrow> RouteType \<times> string) \<Rightarrow> ('h, 'm) RouteNode \<Rightarrow> string \<Rightarrow> string \<Rightarrow> 'h option \<Rightarrow>
   'm list \<Rightarrow> ('h, 'm) RouteNode \<times> (error + node_ref)" where
  "addRouteWith classify n verb pth handler mws =
     (if pth = [] \<or> pth = ''/'' then
        (case handlers n verb of
           Some _ \<Rightarrow> (n, Inl ErrRouteAlreadyExists)
         | None \<Rightarrow>
             (let n = set_middlewares (middlewares n @ mws) n;
                  n = set_handlers ((handlers n)(verb \<mapsto> handler)) n
              in (n, Inr [])))
      else
        (case getPathSegment (stripSlash pth) of (segment, remaining) \<Rightarrow>
         case classify segment of (rt, pname) \<Rightarrow>
           if rt = RouteTypeParam then
             (let n = (if param n = None
                       then set_param (Some (NewRouteNode segment rt pname)) n else n)
              in case addRouteWith classify (the (param n)) verb remaining handler mws of
                   (child, res) \<Rightarrow>
                     (set_param (Some child) n, map_sum id (Cons ParamChild) res))
           else if rt = RouteTypeWildcard then
             (let n = (if wildcard n = None
                       then set_wildcard (Some (NewRouteNode segment rt pname)) n else n)
              in case addRouteWith classify (the (wildcard n)) verb remaining handler mws of
                   (child, res) \<Rightarrow>
                     (set_wildcard (Some child) n, map_sum id (Cons WildcardChild) res))
           else
             (case staticIndex segment (static n) of
                Some i \<Rightarrow>
                  (case addRouteWith classify (static n ! i) verb remaining handler mws of
                     (child, res) \<Rightarrow>
                       (set_static ((static n)[i := child]) n,
                        map_sum id (Cons (StaticChild i)) res))
              | None \<Rightarrow>
                  (let n = set_static (static n @ [NewRouteNode segment RouteTypeStatic []]) n;
                       i = length (static n) - 1
                   in case addRouteWith classify (static n ! i) verb remaining handler mws of
                        (child, res) \<Rightarrow>
                          (set_static ((static n)[i := child]) n,
                           map_sum id (Cons (StaticChild i)) res)))))"
  by pat_completeness auto
termination
  by (relation "measure (\<lambda>(classify, n, verb, pth, handler, mws). length pth)")
     (auto dest: getPathSegment_shorter [OF _ _ sym])

declare addRouteWith.simps [simp del]

text \<open>
  Modelled from the spec: the classifier of package \<open>internal/routes\<close> is not among the
  sources. Its test \<open>TestGetRouteTypeFromSegment\<close> and the spec (4.1, the examples of 8)
  have a segment that begins with a colon for a parameter, named by the rest of the
  segment, a segment that begins with an asterisk for a wildcard, named likewise, and any
  other segment for a static one.
\<close>

definition colonSegmentType :: "string \<Rightarrow> RouteType \<times> string" where
  "colonSegmentType segment =
     (case segment of
        [] \<Rightarrow> (RouteTypeStatic, [])
      | c # cs \<Rightarrow>
          if c = CHR '':'' then (RouteTypeParam, cs)
          else if c = CHR ''*'' then (RouteTypeWildcard, cs)
          else (RouteTypeStatic, []))"

section \<open>Example trees\<close>

text \<open>Trees of examples. Handlers and middleware are named by strings.\<close>

definition fresh_root :: "(string, string) RouteNode" where
  "fresh_root = NewRouteNode [] RouteTypeNone []"

definition users_tree :: "(string, string) RouteNode" where
  "users_tree = fst (Route fresh_root ''GET'' ''/users'' (Some ''first'') [''log''])"

definition commit_tree :: "(string, string) RouteNode" where
  "commit_tree =
     fst (Route (fst (Route fresh_root ''GET'' ''/users/admin/settings'' (Some ''settings'') []))
            ''GET'' ''/users/{id}'' (Some ''user'') [])"

definition files_tree :: "(string, string) RouteNode" where
  "files_tree = fst (Route fresh_root ''GET'' ''/files/*path'' (Some ''files'') [])"


text \<open>Middleware on the root (\<open>Use\<close>), on a group and on a route below the group, with an
  unrelated sibling registered first.\<close>

definition mw_tree :: "(string, string) RouteNode" where
  "mw_tree =
     (let n = Use fresh_root [''auth''];
          n = fst (Route n ''GET'' ''/other'' (Some ''other'') [''cache'']);
          (n, g) = Group n ''/api'' [''log''];
          group = (case g of Inr ref \<Rightarrow> ref | Inl _ \<Rightarrow> [])
      in case RouteAt n group ''GET'' ''/status'' (Some ''status'') [''rate''] of
           Some (n, _) \<Rightarrow> n | None \<Rightarrow> n)"

text \<open>The three routes of the priority example, with the parameter written \<open>{id}\<close> for
  the classifier of the engine.\<close>

definition priority_tree :: "(string, string) RouteNode" where
  "priority_tree =
     (let n = fst (Route fresh_root ''GET'' ''/users/admin'' (Some ''static'') []);
          n = fst (Route n ''GET'' ''/users/{id}'' (Some ''param'') [])
      in fst (Route n ''GET'' ''/users/*rest'' (Some ''wildcard'') []))"

text \<open>The three routes of the priority example as the claim writes them, registered with
  a classifier.\<close>

definition colon_tree :: "(string \<Rightarrow> RouteType \<times> string) \<Rightarrow> (string, string) RouteNode" where
  "colon_tree classify =
     (let n = fst (addRouteWith classify fresh_root ''GET'' ''/users/admin'' (Some ''static'') []);
          n = fst (addRouteWith classify n ''GET'' ''/users/:id'' (Some ''param'') [])
      in fst (addRouteWith classify n ''GET'' ''/users/*rest'' (Some ''wildcard'') []))"

text \<open>A parameter child and a wildcard child below a parameter node.\<close>

definition org_tree :: "(string, string) RouteNode" where
  "org_tree =
     (let n = fst (Route fresh_root ''GET'' ''/{org}/{id}/x'' (Some ''deep'') [])
      in fst (Route n ''GET'' ''/{org}/*rest'' (Some ''wild'') []))"

definition three_kinds_tree :: "(string, string) RouteNode" where
  "three_kinds_tree =
     (let n = fst (Route priority_tree ''POST'' ''/users/{name}'' (Some ''rename'') [])
      in fst (Route n ''GET'' ''/teams'' (Some ''teams'') []))"

text \<open>The group of \<open>examples/basic.go\<close>: \<open>api := e.Group("/api/v1")\<close>, then
  \<open>api.GET("/status", statusHandler)\<close>.\<close>

definition api_group :: "(string, string) RouteNode" where
  "api_group = fst (Group fresh_root ''/api/v1'' [])"

definition api_tree :: "(string, string) RouteNode" where
  "api_tree =
     (case RouteAt api_group [StaticChild 0, StaticChild 0] ''GET'' ''/status'' (Some ''status'')
             [''rate''] of
        Some (n, _) \<Rightarrow> n | None \<Rightarrow> api_group)"

text \<open>A group with the prefix \<open>/api\<close> and a route registered on it with the path
  \<open>status\<close>, without a leading slash.\<close>

definition api_only :: "(string, string) RouteNode" where
  "api_only = fst (Group fresh_root ''/api'' [])"

definition slashless_tree :: "(string, string) RouteNode" where
  "slashless_tree =
     (case RouteAt api_only [StaticChild 0] ''GET'' ''status'' (Some ''status'') [] of
        Some (n, _) \<Rightarrow> n | None \<Rightarrow> api_only)"

section \<open>Properties of the embedding\<close>

subsection \<open>Fields and the static scan\<close>

lemma sel_set_handlers [simp]:
  "path (set_handlers v n) = path n" "routeType (set_handlers v n) = routeType n"
  "paramName (set_handlers v n) = paramName n" "handlers (set_handlers v n) = v"
  "middlewares (set_handlers v n) = middlewares n" "static (set_handlers v n) = static n"
  "param (set_handlers v n) = param n" "wildcard (set_handlers v n) = wildcard n"
  by (cases n; simp)+

lemma sel_set_middlewares [simp]:
  "path (set_middlewares v n) = path n" "routeType (set_middlewares v n) = routeType n"
  "paramName (set_middlewares v n) = paramName n" "handlers (set_middlewares v n) = handlers n"
  "middlewares (set_middlewares v n) = v" "static (set_middlewares v n) = static n"
  "param (set_middlewares v n) = param n" "wildcard (set_middlewares v n) = wildcard n"
  by (cases n; simp)+

lemma sel_set_static [simp]:
  "path (set_static v n) = path n" "routeType (set_static v n) = routeType n"
  "paramName (set_static v n) = paramName n" "handlers (set_static v n) = handlers n"
  "middlewares (set_static v n) = middlewares n" "static (set_static v n) = v"
  "param (set_static v n) = param n" "wildcard (set_static v n) = wildcard n"
  by (cases n; simp)+

lemma sel_set_param [simp]:
  "path (set_param v n) = path n" "routeType (set_param v n) = routeType n"
  "paramName (set_param v n) = paramName n" "handlers (set_param v n) = handlers n"
  "middlewares (set_param v n) = middlewares n" "static (set_param v n) = static n"
  "param (set_param v n) = v" "wildcard (set_param v n) = wildcard n"
  by (cases n; simp)+

lemma sel_set_wildcard [simp]:
  "path (set_wildcard v n) = path n" "routeType (set_wildcard v n) = routeType n"
  "paramName (set_wildcard v n) = paramName n" "handlers (set_wildcard v n) = handlers n"
  "middlewares (set_wildcard v n) = middlewares n" "static (set_wildcard v n) = static n"
  "param (set_wildcard v n) = param n" "wildcard (set_wildcard v n) = v"
  by (cases n; simp)+

lemma set_twice [simp]:
  "set_param v (set_param u n) = set_param v n"
  "set_wildcard v (set_wildcard u n) = set_wildcard v n"
  "set_static vs (set_static us n) = set_static vs n"
  by (cases n; simp)+

lemma set_same [simp]:
  "set_param (param n) n = n" "set_wildcard (wildcard n) n = n" "set_static (static n) n = n"
  by (cases n; simp)+

lemma sel_NewRouteNode [simp]:
  "path (NewRouteNode s rt pn) = s" "routeType (NewRouteNode s rt pn) = rt"
  "paramName (NewRouteNode s rt pn) = pn" "handlers (NewRouteNode s rt pn) = Map.empty"
  "middlewares (NewRouteNode s rt pn) = []" "static (NewRouteNode s rt pn) = []"
  "param (NewRouteNode s rt pn) = None" "wildcard (NewRouteNode s rt pn) = None"
  by (simp_all add: NewRouteNode_def)

lemma staticIndex_Some:
  "staticIndex s xs = Some i \<Longrightarrow> i < length xs \<and> path (xs ! i) = s \<and> (\<forall>j<i. path (xs ! j) \<noteq> s)"
proof (induction xs arbitrary: i)
  case Nil
  then show ?case by simp
next
  case (Cons x xs)
  show ?case
  proof (cases "path x = s")
    case True
    with Cons.prems show ?thesis by simp
  next
    case False
    with Cons.prems obtain k where k: "staticIndex s xs = Some k" "i = Suc k"
      by auto
    from Cons.IH [OF k(1)] False k(2) show ?thesis
      by (auto simp: less_Suc_eq_0_disj)
  qed
qed

lemma staticIndex_None: "staticIndex s xs = None \<longleftrightarrow> s \<notin> path ` set xs"
  by (induction xs) auto

lemma staticIndex_update:
  "staticIndex s xs = Some i \<Longrightarrow> path c = s \<Longrightarrow> staticIndex s (xs[i := c]) = Some i"
proof (induction xs arbitrary: i)
  case Nil
  then show ?case by simp
next
  case (Cons x xs)
  then show ?case
    by (cases "path x = s") (auto split: nat.splits)
qed

lemma staticIndex_append_new:
  "staticIndex s xs = None \<Longrightarrow> path c = s \<Longrightarrow> staticIndex s (xs @ [c]) = Some (length xs)"
  by (induction xs) auto

subsection \<open>One step of the registration\<close>

lemma addRoute_terminal:
  "pth = [] \<or> pth = ''/'' \<Longrightarrow>
   addRoute n verb pth handler mws =
     (case handlers n verb of
        Some _ \<Rightarrow> (n, Inl ErrRouteAlreadyExists)
      | None \<Rightarrow>
          (set_handlers ((handlers n)(verb \<mapsto> handler)) (set_middlewares (middlewares n @ mws) n),
           Inr []))"
  by (subst addRoute.simps) (simp split: option.splits)

lemma addRoute_param:
  assumes "pth \<noteq> []" "pth \<noteq> ''/''" "getPathSegment (stripSlash pth) = (segment, remaining)"
    and "getRouteTypeFromSegment segment = (RouteTypeParam, pname)"
  shows "addRoute n verb pth handler mws =
     (case addRoute (case param n of None \<Rightarrow> NewRouteNode segment RouteTypeParam pname | Some c \<Rightarrow> c)
             verb remaining handler mws of
        (child, res) \<Rightarrow> (set_param (Some child) n, map_sum id (Cons ParamChild) res))"
  using assms by (subst addRoute.simps) (auto simp: Let_def split: prod.splits option.splits)

lemma addRoute_wildcard:
  assumes "pth \<noteq> []" "pth \<noteq> ''/''" "getPathSegment (stripSlash pth) = (segment, remaining)"
    and "getRouteTypeFromSegment segment = (RouteTypeWildcard, pname)"
  shows "addRoute n verb pth handler mws =
     (case addRoute (case wildcard n of None \<Rightarrow> NewRouteNode segment RouteTypeWildcard pname | Some c \<Rightarrow> c)
             verb remaining handler mws of
        (child, res) \<Rightarrow> (set_wildcard (Some child) n, map_sum id (Cons WildcardChild) res))"
  using assms by (subst addRoute.simps) (auto simp: Let_def split: prod.splits option.splits)

lemma addRoute_static_old:
  assumes "pth \<noteq> []" "pth \<noteq> ''/''" "getPathSegment (stripSlash pth) = (segment, remaining)"
    and "getRouteTypeFromSegment segment = (RouteTypeStatic, pname)"
    and "staticIndex segment (static n) = Some i"
  shows "addRoute n verb pth handler mws =
     (case addRoute (static n ! i) verb remaining handler mws of
        (child, res) \<Rightarrow> (set_static ((static n)[i := child]) n, map_sum id (Cons (StaticChild i)) res))"
  using assms by (subst addRoute.simps) (auto simp: Let_def split: prod.splits option.splits)

lemma addRoute_static_new:
  assumes "pth \<noteq> []" "pth \<noteq> ''/''" "getPathSegment (stripSlash pth) = (segment, remaining)"
    and "getRouteTypeFromSegment segment = (RouteTypeStatic, pname)"
    and "staticIndex segment (static n) = None"
  shows "addRoute n verb pth handler mws =
     (case addRoute (NewRouteNode segment RouteTypeStatic []) verb remaining handler mws of
        (child, res) \<Rightarrow>
          (set_static (static n @ [child]) n, map_sum id (Cons (StaticChild (length (static n)))) res))"
  using assms by (subst addRoute.simps) (auto simp: Let_def nth_append split: prod.splits option.splits)

lemma getRouteType_cases:
  obtains pname where "getRouteTypeFromSegment segment = (RouteTypeParam, pname)"
  | pname where "getRouteTypeFromSegment segment = (RouteTypeWildcard, pname)"
  | "getRouteTypeFromSegment segment = (RouteTypeStatic, [])"
proof (cases "isPathParam segment")
  case True
  then show ?thesis using that(1) by (simp add: getRouteTypeFromSegment_def)
next
  case False
  then show ?thesis using that(2,3) by (cases "isWildcard segment") (simp_all add: getRouteTypeFromSegment_def)
qed

lemma addRoute_induct [case_names terminal param wildcard static_old static_new]:
  assumes terminal: "\<And>n pth. pth = [] \<or> pth = ''/'' \<Longrightarrow> P n pth"
    and param: "\<And>n pth segment remaining pname.
        pth \<noteq> [] \<Longrightarrow> pth \<noteq> ''/'' \<Longrightarrow> getPathSegment (stripSlash pth) = (segment, remaining) \<Longrightarrow>
        getRouteTypeFromSegment segment = (RouteTypeParam, pname) \<Longrightarrow>
        P (case param n of None \<Rightarrow> NewRouteNode segment RouteTypeParam pname | Some c \<Rightarrow> c) remaining \<Longrightarrow>
        P n pth"
    and wildcard: "\<And>n pth segment remaining pname.
        pth \<noteq> [] \<Longrightarrow> pth \<noteq> ''/'' \<Longrightarrow> getPathSegment (stripSlash pth) = (segment, remaining) \<Longrightarrow>
        getRouteTypeFromSegment segment = (RouteTypeWildcard, pname) \<Longrightarrow>
        P (case wildcard n of None \<Rightarrow> NewRouteNode segment RouteTypeWildcard pname | Some c \<Rightarrow> c) remaining \<Longrightarrow>
        P n pth"
    and static_old: "\<And>n pth segment remaining i.
        pth \<noteq> [] \<Longrightarrow> pth \<noteq> ''/'' \<Longrightarrow> getPathSegment (stripSlash pth) = (segment, remaining) \<Longrightarrow>
        getRouteTypeFromSegment segment = (RouteTypeStatic, []) \<Longrightarrow>
        staticIndex segment (static n) = Some i \<Longrightarrow>
        P (static n ! i) remaining \<Longrightarrow> P n pth"
    and static_new: "\<And>n pth segment remaining.
        pth \<noteq> [] \<Longrightarrow> pth \<noteq> ''/'' \<Longrightarrow> getPathSegment (stripSlash pth) = (segment, remaining) \<Longrightarrow>
        getRouteTypeFromSegment segment = (RouteTypeStatic, []) \<Longrightarrow>
        staticIndex segment (static n) = None \<Longrightarrow>
        P (NewRouteNode segment RouteTypeStatic []) remaining \<Longrightarrow> P n pth"
  shows "P n pth"
proof (induction "length pth" arbitrary: n pth rule: less_induct)
  case less
  show ?case
  proof (cases "pth = [] \<or> pth = ''/''")
    case True
    then show ?thesis by (rule terminal)
  next
    case False
    then have ne: "pth \<noteq> []" "pth \<noteq> ''/''" by simp_all
    obtain segment remaining where seg: "getPathSegment (stripSlash pth) = (segment, remaining)"
      by (cases "getPathSegment (stripSlash pth)")
    have shorter: "length remaining < length pth"
      using ne seg by (rule getPathSegment_shorter)
    show ?thesis
    proof (cases segment rule: getRouteType_cases)
      case (1 pname)
      show ?thesis by (rule param [OF ne seg 1 less [OF shorter]])
    next
      case (2 pname)
      show ?thesis by (rule wildcard [OF ne seg 2 less [OF shorter]])
    next
      case 3
      show ?thesis
      proof (cases "staticIndex segment (static n)")
        case None
        show ?thesis by (rule static_new [OF ne seg 3 None less [OF shorter]])
      next
        case (Some i)
        show ?thesis by (rule static_old [OF ne seg 3 Some less [OF shorter]])
      qed
    qed
  qed
qed

subsection \<open>Failed and repeated registrations\<close>

lemma map_sum_id_Inl [simp]: "map_sum id f x = Inl e \<longleftrightarrow> x = Inl e"
  by (cases x) auto

lemma map_sum_id_Inr: "map_sum id f x = Inr r \<longleftrightarrow> (\<exists>r0. x = Inr r0 \<and> r = f r0)"
  by (cases x) auto

lemma set_unchanged:
  "param n = v \<Longrightarrow> set_param v n = n"
  "wildcard n = w \<Longrightarrow> set_wildcard w n = n"
  "static n = vs \<Longrightarrow> set_static vs n = n"
  by auto

lemma addRoute_path: "path (fst (addRoute n verb pth handler mws)) = path n"
proof (induction n pth rule: addRoute_induct)
  case (terminal n pth)
  then show ?case by (simp add: addRoute_terminal split: option.splits)
next
  case (param n pth segment remaining pname)
  then show ?case by (simp add: addRoute_param split: prod.splits)
next
  case (wildcard n pth segment remaining pname)
  then show ?case by (simp add: addRoute_wildcard split: prod.splits)
next
  case (static_old n pth segment remaining i)
  then show ?case by (simp add: addRoute_static_old split: prod.splits)
next
  case (static_new n pth segment remaining)
  then show ?case by (simp add: addRoute_static_new split: prod.splits)
qed

lemma addRoute_blank:
  "handlers n = Map.empty \<Longrightarrow> static n = [] \<Longrightarrow> param n = None \<Longrightarrow> wildcard n = None \<Longrightarrow>
   \<exists>n' r. addRoute n verb pth handler mws = (n', Inr r)"
proof (induction n pth rule: addRoute_induct)
  case (terminal n pth)
  then show ?case by (simp add: addRoute_terminal)
next
  case (param n pth segment remaining pname)
  then show ?case by (auto simp: addRoute_param)
next
  case (wildcard n pth segment remaining pname)
  then show ?case by (auto simp: addRoute_wildcard)
next
  case (static_old n pth segment remaining i)
  then show ?case by simp
next
  case (static_new n pth segment remaining)
  then show ?case by (auto simp: addRoute_static_new)
qed

lemma addRoute_new_ok:
  "\<exists>n' r. addRoute (NewRouteNode s rt pn) verb pth handler mws = (n', Inr r)"
  by (rule addRoute_blank) simp_all

lemma addRoute_error_unchanged:
  "addRoute n verb pth handler mws = (n', Inl e) \<Longrightarrow> n' = n \<and> e = ErrRouteAlreadyExists"
proof (induction n pth arbitrary: n' rule: addRoute_induct)
  case (terminal n pth)
  then show ?case by (auto simp: addRoute_terminal split: option.splits)
next
  case (param n pth segment remaining pname)
  show ?case
  proof (cases "param n")
    case None
    with param.prems addRoute_new_ok [of segment RouteTypeParam pname verb remaining handler mws]
    show ?thesis
      by (auto simp: addRoute_param [OF param.hyps])
  next
    case (Some c)
    with param.prems param.IH show ?thesis
      by (auto simp: addRoute_param [OF param.hyps] set_unchanged split: prod.splits)
  qed
next
  case (wildcard n pth segment remaining pname)
  show ?case
  proof (cases "wildcard n")
    case None
    with wildcard.prems addRoute_new_ok [of segment RouteTypeWildcard pname verb remaining handler mws]
    show ?thesis
      by (auto simp: addRoute_wildcard [OF wildcard.hyps])
  next
    case (Some c)
    with wildcard.prems wildcard.IH show ?thesis
      by (auto simp: addRoute_wildcard [OF wildcard.hyps] set_unchanged split: prod.splits)
  qed
next
  case (static_old n pth segment remaining i)
  then show ?case
    by (auto simp: addRoute_static_old [OF static_old.hyps] set_unchanged split: prod.splits)
next
  case (static_new n pth segment remaining)
  with addRoute_new_ok [of segment RouteTypeStatic "[]" verb remaining handler mws]
  show ?case
    by (auto simp: addRoute_static_new [OF static_new.hyps])
qed

lemma addRoute_twice:
  "addRoute n verb pth handler mws = (n1, Inr r) \<Longrightarrow>
   addRoute n1 verb pth handler' mws' = (n1, Inl ErrRouteAlreadyExists)"
proof (induction n pth arbitrary: n1 r rule: addRoute_induct)
  case (terminal n pth)
  then show ?case by (auto simp: addRoute_terminal split: option.splits)
next
  case (param n pth segment remaining pname)
  let ?c = "case param n of None \<Rightarrow> NewRouteNode segment RouteTypeParam pname | Some c \<Rightarrow> c"
  obtain child res where rec: "addRoute ?c verb remaining handler mws = (child, res)"
    by (cases "addRoute ?c verb remaining handler mws")
  with param.prems obtain r' where n1: "n1 = set_param (Some child) n" and res: "res = Inr r'"
    by (cases res) (auto simp: addRoute_param [OF param.hyps])
  note step = addRoute_param [OF param.hyps, of n1 verb handler' mws']
  from param.IH [OF rec [unfolded res]] show ?case
    unfolding step by (simp add: n1)
next
  case (wildcard n pth segment remaining pname)
  let ?c = "case wildcard n of None \<Rightarrow> NewRouteNode segment RouteTypeWildcard pname | Some c \<Rightarrow> c"
  obtain child res where rec: "addRoute ?c verb remaining handler mws = (child, res)"
    by (cases "addRoute ?c verb remaining handler mws")
  with wildcard.prems obtain r' where n1: "n1 = set_wildcard (Some child) n" and res: "res = Inr r'"
    by (cases res) (auto simp: addRoute_wildcard [OF wildcard.hyps])
  note step = addRoute_wildcard [OF wildcard.hyps, of n1 verb handler' mws']
  from wildcard.IH [OF rec [unfolded res]] show ?case
    unfolding step by (simp add: n1)
next
  case (static_old n pth segment remaining i)
  obtain child res where rec: "addRoute (static n ! i) verb remaining handler mws = (child, res)"
    by (cases "addRoute (static n ! i) verb remaining handler mws")
  with static_old.prems obtain r' where
    n1: "n1 = set_static ((static n)[i := child]) n" and res: "res = Inr r'"
    by (cases res) (auto simp: addRoute_static_old [OF static_old.hyps])
  have i: "i < length (static n)" "path (static n ! i) = segment"
    using staticIndex_Some [OF static_old.hyps(5)] by simp_all
  have pc: "path child = segment"
    using addRoute_path [of "static n ! i" verb remaining handler mws] rec i by simp
  have idx: "staticIndex segment (static n1) = Some i"
    by (simp add: n1 staticIndex_update [OF static_old.hyps(5) pc])
  note step = addRoute_static_old [OF static_old.hyps(1-4) idx, of verb handler' mws']
  from static_old.IH [OF rec [unfolded res]] i show ?case
    unfolding step by (simp add: n1)
next
  case (static_new n pth segment remaining)
  let ?c = "NewRouteNode segment RouteTypeStatic []"
  obtain child res where rec: "addRoute ?c verb remaining handler mws = (child, res)"
    by (cases "addRoute ?c verb remaining handler mws")
  with static_new.prems obtain r' where
    n1: "n1 = set_static (static n @ [child]) n" and res: "res = Inr r'"
    by (cases res) (auto simp: addRoute_static_new [OF static_new.hyps])
  have pc: "path child = segment"
    using addRoute_path [of ?c verb remaining handler mws] rec by simp
  have idx: "staticIndex segment (static n1) = Some (length (static n))"
    by (simp add: n1 staticIndex_append_new [OF static_new.hyps(5) pc])
  note step = addRoute_static_old [OF static_new.hyps(1-4) idx, of verb handler' mws']
  from static_new.IH [OF rec [unfolded res]] show ?case
    unfolding step by (simp add: n1)
qed

subsection \<open>Evaluation of the examples\<close>

lemmas eval_defs =
  Find_def Route_def Group_def RouteAt_def Use_def NewRouteNode_def getPathSegment_def SplitN2_def
  stripSlash_def getRouteTypeFromSegment_def isPathParam_def isWildcard_def staticMatch_def
  maps_Copy_def addRoute.simps find_node.simps fresh_root_def

subsection \<open>One step of the lookup\<close>

lemma maps_Copy_empty [simp]: "maps_Copy m Map.empty = m"
  by (simp add: maps_Copy_def)

lemma find_node_terminal:
  "pth = [] \<or> pth = ''/'' \<Longrightarrow>
   find_node n parents route verb pth =
     (case handlers n verb of
        None \<Rightarrow> (route, Some ErrRouteNotFound)
      | Some handler \<Rightarrow>
          (route\<lparr>Method := verb, Handler := handler,
                 Middlewares := collectMiddlewares n parents (Middlewares route)\<rparr>, None))"
  by (subst find_node.simps) (simp split: option.splits)

lemma find_node_static:
  assumes "pth \<noteq> []" "pth \<noteq> ''/''" "getPathSegment (stripSlash pth) = (segment, remaining)"
    and "staticMatch segment (static n) = Some child"
  shows "find_node n parents route verb pth = find_node child (n # parents) route verb remaining"
  using assms by (subst find_node.simps) simp

text \<open>The wildcard check of \<open>find\<close>, reached with the route \<open>route\<close>.\<close>

lemma find_node_no_param:
  assumes "pth \<noteq> []" "pth \<noteq> ''/''" "getPathSegment (stripSlash pth) = (segment, remaining)"
    and "staticMatch segment (static n) = None" and "param n = None"
  shows "find_node n parents route verb pth =
     (case wildcard n of
        Some w \<Rightarrow>
          find_node w (n # parents)
            (route\<lparr>PathParams := (PathParams route)(paramName w \<mapsto> segment @ remaining)\<rparr>) verb []
      | None \<Rightarrow> (route, Some ErrRouteNotFound))"
  using assms by (subst find_node.simps) (simp split: option.splits)

lemma find_node_param_ok:
  assumes "pth \<noteq> []" "pth \<noteq> ''/''" "getPathSegment (stripSlash pth) = (segment, remaining)"
    and "staticMatch segment (static n) = None" and "param n = Some p"
    and "find_node p (n # parents)
           (route\<lparr>PathParams := (PathParams route)(paramName p \<mapsto> segment)\<rparr>) verb remaining =
         (r, None)"
  shows "find_node n parents route verb pth = (r, None)"
  using assms by (subst find_node.simps) simp

lemma find_node_param_failed:
  assumes "pth \<noteq> []" "pth \<noteq> ''/''" "getPathSegment (stripSlash pth) = (segment, remaining)"
    and "staticMatch segment (static n) = None" and "param n = Some p"
    and "find_node p (n # parents)
           (route\<lparr>PathParams := (PathParams route)(paramName p \<mapsto> segment)\<rparr>) verb remaining =
         (r, Some err)"
  shows "find_node n parents route verb pth =
     (case wildcard n of
        Some w \<Rightarrow>
          find_node w (n # parents)
            (r\<lparr>PathParams := [paramName w \<mapsto> segment @ remaining]\<rparr>) verb []
      | None \<Rightarrow> (r\<lparr>PathParams := Map.empty\<rparr>, Some ErrRouteNotFound))"
  using assms by (subst find_node.simps) (simp split: option.splits)

lemma find_node_induct [case_names terminal static other]:
  assumes terminal: "\<And>n parents route pth. pth = [] \<or> pth = ''/'' \<Longrightarrow> P n parents route pth"
    and static: "\<And>n parents route pth segment remaining child.
        pth \<noteq> [] \<Longrightarrow> pth \<noteq> ''/'' \<Longrightarrow> getPathSegment (stripSlash pth) = (segment, remaining) \<Longrightarrow>
        staticMatch segment (static n) = Some child \<Longrightarrow>
        P child (n # parents) route remaining \<Longrightarrow> P n parents route pth"
    and other: "\<And>n parents route pth segment remaining.
        pth \<noteq> [] \<Longrightarrow> pth \<noteq> ''/'' \<Longrightarrow> getPathSegment (stripSlash pth) = (segment, remaining) \<Longrightarrow>
        staticMatch segment (static n) = None \<Longrightarrow>
        (\<And>p. param n = Some p \<Longrightarrow>
           P p (n # parents) (route\<lparr>PathParams := (PathParams route)(paramName p \<mapsto> segment)\<rparr>)
             remaining) \<Longrightarrow>
        P n parents route pth"
  shows "P n parents route pth"
proof (induction "length pth" arbitrary: n parents route pth rule: less_induct)
  case less
  show ?case
  proof (cases "pth = [] \<or> pth = ''/''")
    case True
    then show ?thesis by (rule terminal)
  next
    case False
    then have ne: "pth \<noteq> []" "pth \<noteq> ''/''" by simp_all
    obtain segment remaining where seg: "getPathSegment (stripSlash pth) = (segment, remaining)"
      by (cases "getPathSegment (stripSlash pth)")
    have shorter: "length remaining < length pth"
      using ne seg by (rule getPathSegment_shorter)
    show ?thesis
    proof (cases "staticMatch segment (static n)")
      case None
      show ?thesis by (rule other [OF ne seg None less [OF shorter]])
    next
      case (Some child)
      show ?thesis by (rule static [OF ne seg Some less [OF shorter]])
    qed
  qed
qed

text \<open>A lookup that fails reports \<open>ErrRouteNotFound\<close> and has written nothing but
  \<open>PathParams\<close>.\<close>

lemma find_node_failed:
  "find_node n parents route verb pth = (r, Some err) \<Longrightarrow>
   err = ErrRouteNotFound \<and> r = route\<lparr>PathParams := PathParams r\<rparr>"
proof (induction n parents route pth arbitrary: r err rule: find_node_induct)
  case (terminal n parents route pth)
  then show ?case by (auto simp: find_node_terminal split: option.splits)
next
  case (static n parents route pth segment remaining child)
  then show ?case by (simp add: find_node_static)
next
  case (other n parents route pth segment remaining)
  note hyps = other.hyps
  show ?case
  proof (cases "param n")
    case None
    with other.prems show ?thesis
      by (auto simp: find_node_no_param [OF hyps] find_node_terminal split: option.splits)
  next
    case (Some p)
    let ?route = "route\<lparr>PathParams := (PathParams route)(paramName p \<mapsto> segment)\<rparr>"
    obtain r1 e1 where rec: "find_node p (n # parents) ?route verb remaining = (r1, e1)"
      by (cases "find_node p (n # parents) ?route verb remaining")
    show ?thesis
    proof (cases e1)
      case None
      with other.prems find_node_param_ok [OF hyps Some rec [unfolded None]] show ?thesis
        by simp
    next
      case (Some e)
      from other.IH [OF \<open>param n = Some p\<close> rec [unfolded Some]]
      have r1: "r1 = ?route\<lparr>PathParams := PathParams r1\<rparr>" by simp
      from other.prems find_node_param_failed [OF hyps \<open>param n = Some p\<close> rec [unfolded Some]]
      show ?thesis
        by (subst (asm) r1, subst (asm) r1)
           (auto simp: find_node_terminal split: option.splits)
    qed
  qed
qed

subsection \<open>The parent chain and the middleware\<close>

lemma collectMiddlewares_eq:
  "collectMiddlewares n parents mws = mws @ concat (map middlewares (rev parents)) @ middlewares n"
  by (induction n parents mws rule: collectMiddlewares.induct) simp_all

lemma collectMiddlewares_cong:
  assumes "map middlewares parents = map middlewares parents'"
  shows "collectMiddlewares n parents mws = collectMiddlewares n parents' mws"
proof -
  have "map middlewares (rev parents) = map middlewares (rev parents')"
    using assms by (metis rev_map)
  then show ?thesis
    by (simp add: collectMiddlewares_eq)
qed

lemma find_node_parents_cong:
  "map middlewares parents = map middlewares parents' \<Longrightarrow>
   find_node n parents route verb pth = find_node n parents' route verb pth"
proof (induction n parents route pth arbitrary: parents' rule: find_node_induct)
  case (terminal n parents route pth)
  then show ?case
    by (simp add: find_node_terminal collectMiddlewares_cong [of parents parents'] split: option.splits)
next
  case (static n parents route pth segment remaining child)
  then show ?case by (simp add: find_node_static)
next
  case (other n parents route pth segment remaining)
  note hyps = other.hyps
  have wild: "find_node w (n # parents) rt verb [] = find_node w (n # parents') rt verb []" for w rt
    using other.prems
    by (simp add: find_node_terminal collectMiddlewares_cong [of parents parents']
        split: option.splits)
  show ?case
  proof (cases "param n")
    case None
    then show ?thesis
      by (simp add: find_node_no_param [OF hyps] wild split: option.splits)
  next
    case (Some p)
    let ?route = "route\<lparr>PathParams := (PathParams route)(paramName p \<mapsto> segment)\<rparr>"
    have eq: "find_node p (n # parents) ?route verb remaining =
              find_node p (n # parents') ?route verb remaining"
      using other.IH [OF Some, of "n # parents'"] other.prems by simp
    obtain r1 e1 where rec: "find_node p (n # parents) ?route verb remaining = (r1, e1)"
      by (cases "find_node p (n # parents) ?route verb remaining")
    show ?thesis
    proof (cases e1)
      case None
      with rec eq show ?thesis
        by (simp add: find_node_param_ok [OF hyps Some])
    next
      case (Some e)
      with rec eq show ?thesis
        by (simp add: find_node_param_failed [OF hyps \<open>param n = Some p\<close>] wild split: option.splits)
    qed
  qed
qed

subsection \<open>The wildcard child and the nodes that consume the path\<close>

lemma getPathSegment_verbatim:
  assumes "getPathSegment q = (segment, remaining)"
  shows "q = segment @ remaining \<or> (remaining = [] \<and> q = segment @ ''/'')"
proof (cases "CHR ''/'' \<in> set q")
  case False
  with assms show ?thesis
    by (simp add: getPathSegment_def SplitN2_def)
next
  case True
  let ?a = "takeWhile (\<lambda>c. c \<noteq> CHR ''/'') q"
  let ?b = "dropWhile (\<lambda>c. c \<noteq> CHR ''/'') q"
  from True have "?b \<noteq> []"
    by (simp add: dropWhile_eq_Nil_conv)
  moreover have "hd ?b = CHR ''/''"
    using hd_dropWhile [OF \<open>?b \<noteq> []\<close>] by simp
  ultimately obtain rest where b: "?b = CHR ''/'' # rest"
    by (cases ?b) auto
  have q: "q = ?a @ CHR ''/'' # rest"
    using takeWhile_dropWhile_id [of "\<lambda>c. c \<noteq> CHR ''/''" q] b by simp
  from assms True b have "segment = ?a" "remaining = (if rest \<noteq> [] then CHR ''/'' # rest else [])"
    by (auto simp: getPathSegment_def SplitN2_def Let_def)
  with q show ?thesis
    by (cases "rest = []") auto
qed

lemma getPathSegment_segment:
  assumes "getPathSegment q = (segment, remaining)"
  shows "CHR ''/'' \<notin> set segment"
proof (cases "CHR ''/'' \<in> set q")
  case False
  with assms show ?thesis
    by (simp add: getPathSegment_def SplitN2_def)
next
  case True
  with assms have "segment = takeWhile (\<lambda>c. c \<noteq> CHR ''/'') q"
    by (auto simp: getPathSegment_def SplitN2_def Let_def)
  then show ?thesis
    by (auto dest: set_takeWhileD)
qed

text \<open>When the lookup at a node reaches the wildcard check with a wildcard child \<open>w\<close>, it is
  the lookup of the empty path at \<open>w\<close>, with the segment and its remainder bound to the
  name of \<open>w\<close>.\<close>

lemma find_node_reaches_wildcard:
  assumes "pth \<noteq> []" and "pth \<noteq> ''/''"
    and "getPathSegment (stripSlash pth) = (segment, remaining)"
    and "staticMatch segment (static n) = None"
    and "param n = None \<or>
         (\<exists>p. param n = Some p \<and>
              snd (find_node p (n # parents)
                     (route\<lparr>PathParams := (PathParams route)(paramName p \<mapsto> segment)\<rparr>)
                     verb remaining) \<noteq> None)"
    and "wildcard n = Some w"
  shows "\<exists>r. find_node n parents route verb pth = find_node w (n # parents) r verb [] \<and>
             PathParams r (paramName w) = Some (segment @ remaining) \<and>
             Middlewares r = Middlewares route"
proof (cases "param n")
  note hyps = assms(1-4)
  case None
  with assms(6) show ?thesis
    by (intro exI [of _ "route\<lparr>PathParams :=
          (PathParams route)(paramName w \<mapsto> segment @ remaining)\<rparr>"])
       (simp add: find_node_no_param [OF hyps])
next
  note hyps = assms(1-4)
  case (Some p)
  let ?route = "route\<lparr>PathParams := (PathParams route)(paramName p \<mapsto> segment)\<rparr>"
  from Some assms(5) obtain r1 err where
    rec: "find_node p (n # parents) ?route verb remaining = (r1, Some err)"
    by (cases "find_node p (n # parents) ?route verb remaining") auto
  from find_node_failed [OF rec] have "Middlewares r1 = Middlewares route"
    by (metis (no_types, lifting) Route.select_convs(4) Route.surjective Route.update_convs(5))
  with assms(6) show ?thesis
    by (intro exI [of _ "r1\<lparr>PathParams := [paramName w \<mapsto> segment @ remaining]\<rparr>"])
       (simp add: find_node_param_failed [OF hyps Some rec])
qed





subsection \<open>The way down to the matched node\<close>

lemma staticMatch_Some:
  "staticMatch s xs = Some c \<Longrightarrow> c \<in> set xs \<and> path c = s"
  by (auto simp: staticMatch_def dest: staticIndex_Some)

lemma find_node_chain:
  "find_node n parents route verb pth = (r, None) \<Longrightarrow>
   \<exists>nodes. descends n nodes \<and>
     handlers (last (n # nodes)) verb = Some (Handler r) \<and>
     Middlewares r =
       Middlewares route @ concat (map middlewares (rev parents)) @
       concat (map middlewares (n # nodes))"
proof (induction n parents route pth arbitrary: r rule: find_node_induct)
  case (terminal n parents route pth)
  then have "descends n [] \<and> handlers (last [n]) verb = Some (Handler r) \<and>
     Middlewares r = Middlewares route @ concat (map middlewares (rev parents)) @
       concat (map middlewares [n])"
    by (auto simp: find_node_terminal collectMiddlewares_eq split: option.splits)
  then show ?case by blast
next
  case (static n parents route pth segment remaining child)
  from static.prems static.hyps have "find_node child (n # parents) route verb remaining = (r, None)"
    by (simp add: find_node_static)
  from static.IH [OF this] obtain nodes where nodes: "descends child nodes"
    "handlers (last (child # nodes)) verb = Some (Handler r)"
    "Middlewares r = Middlewares route @ concat (map middlewares (rev (n # parents))) @
       concat (map middlewares (child # nodes))"
    by blast
  from staticMatch_Some [OF static.hyps(4)] nodes
  have "descends n (child # nodes) \<and>
     handlers (last (n # child # nodes)) verb = Some (Handler r) \<and>
     Middlewares r = Middlewares route @ concat (map middlewares (rev parents)) @
       concat (map middlewares (n # child # nodes))"
    by simp
  then show ?case by blast
next
  case (other n parents route pth segment remaining)
  note hyps = other.hyps
  have wild: "\<exists>nodes. descends n nodes \<and>
     handlers (last (n # nodes)) verb = Some (Handler r) \<and>
     Middlewares r =
       Middlewares route @ concat (map middlewares (rev parents)) @
       concat (map middlewares (n # nodes))"
    if w: "wildcard n = Some w" and f: "find_node w (n # parents) rt verb [] = (r, None)"
      and m: "Middlewares rt = Middlewares route" for w rt
  proof -
    from f m have "descends n [w] \<and> handlers (last [n, w]) verb = Some (Handler r) \<and>
       Middlewares r = Middlewares route @ concat (map middlewares (rev parents)) @
         concat (map middlewares [n, w])"
      using w by (auto simp: find_node_terminal collectMiddlewares_eq split: option.splits)
    then show ?thesis by blast
  qed
  show ?case
  proof (cases "param n")
    case None
    with other.prems obtain w where "wildcard n = Some w"
      "find_node w (n # parents)
         (route\<lparr>PathParams := (PathParams route)(paramName w \<mapsto> segment @ remaining)\<rparr>) verb [] =
       (r, None)"
      by (auto simp: find_node_no_param [OF hyps] split: option.splits)
    then show ?thesis
      by (rule wild) simp
  next
    case (Some p)
    let ?route = "route\<lparr>PathParams := (PathParams route)(paramName p \<mapsto> segment)\<rparr>"
    obtain r1 e1 where rec: "find_node p (n # parents) ?route verb remaining = (r1, e1)"
      by (cases "find_node p (n # parents) ?route verb remaining")
    show ?thesis
    proof (cases e1)
      case None
      with other.prems find_node_param_ok [OF hyps Some rec [unfolded None]]
      have "r1 = r" by simp
      from other.IH [OF Some rec [unfolded None \<open>r1 = r\<close>]] obtain nodes where
        nodes: "descends p nodes" "handlers (last (p # nodes)) verb = Some (Handler r)"
        "Middlewares r = Middlewares ?route @ concat (map middlewares (rev (n # parents))) @
           concat (map middlewares (p # nodes))"
        by blast
      with Some have "descends n (p # nodes) \<and>
         handlers (last (n # p # nodes)) verb = Some (Handler r) \<and>
         Middlewares r = Middlewares route @ concat (map middlewares (rev parents)) @
           concat (map middlewares (n # p # nodes))"
        by simp
      then show ?thesis by blast
    next
      case (Some e)
      note failed = rec [unfolded Some]
      from find_node_failed [OF failed] have m: "Middlewares r1 = Middlewares route"
        by (metis (no_types, lifting) Route.select_convs(4) Route.surjective Route.update_convs(5))
      from other.prems find_node_param_failed [OF hyps \<open>param n = Some p\<close> failed]
      obtain w where "wildcard n = Some w"
        "find_node w (n # parents)
           (r1\<lparr>PathParams := [paramName w \<mapsto> segment @ remaining]\<rparr>) verb [] = (r, None)"
        by (auto split: option.splits)
      then show ?thesis
        by (rule wild) (simp add: m)
    qed
  qed
qed

subsection \<open>The leading slash\<close>

lemma addRoute_leading_slash:
  assumes "pth = [] \<or> hd pth \<noteq> CHR ''/''"
  shows "addRoute n verb (CHR ''/'' # pth) handler mws = addRoute n verb pth handler mws"
proof (cases "pth = []")
  case True
  then show ?thesis
    by (simp add: addRoute_terminal)
next
  case False
  with assms have "hd pth \<noteq> CHR ''/''" by simp
  with False have ne: "pth \<noteq> ''/''" by auto
  from False \<open>hd pth \<noteq> CHR ''/''\<close> have strip: "stripSlash (CHR ''/'' # pth) = stripSlash pth"
    by (simp add: stripSlash_def)
  show ?thesis
    using addRoute.simps [of n verb "CHR ''/'' # pth" handler mws]
      addRoute.simps [of n verb pth handler mws] False ne
    by (simp add: strip)
qed

lemma find_node_leading_slash:
  assumes "pth = [] \<or> hd pth \<noteq> CHR ''/''"
  shows "find_node n parents route verb (CHR ''/'' # pth) = find_node n parents route verb pth"
proof (cases "pth = []")
  case True
  then show ?thesis
    by (simp add: find_node_terminal)
next
  case False
  with assms have "hd pth \<noteq> CHR ''/''" by simp
  with False have ne: "pth \<noteq> ''/''" by auto
  from False \<open>hd pth \<noteq> CHR ''/''\<close> have strip: "stripSlash (CHR ''/'' # pth) = stripSlash pth"
    by (simp add: stripSlash_def)
  show ?thesis
    using find_node.simps [of n parents route verb "CHR ''/'' # pth"]
      find_node.simps [of n parents route verb pth] False ne
    by (simp add: strip)
qed

text \<open>The \<open>Path\<close> field of the route is carried along and never read.\<close>

lemma find_node_Path:
  "find_node n parents (route\<lparr>Path := x\<rparr>) verb pth =
     (case find_node n parents route verb pth of (r, e) \<Rightarrow> (r\<lparr>Path := x\<rparr>, e))"
proof (induction n parents route pth rule: find_node_induct)
  case (terminal n parents route pth)
  then show ?case
    by (simp add: find_node_terminal split: option.splits)
next
  case (static n parents route pth segment remaining child)
  then show ?case
    by (simp add: find_node_static)
next
  case (other n parents route pth segment remaining)
  note hyps = other.hyps
  show ?case
  proof (cases "param n")
    case None
    then show ?thesis
      by (simp add: find_node_no_param [OF hyps] find_node_terminal split: option.splits)
  next
    case (Some p)
    let ?route = "route\<lparr>PathParams := (PathParams route)(paramName p \<mapsto> segment)\<rparr>"
    obtain r1 e1 where rec: "find_node p (n # parents) ?route verb remaining = (r1, e1)"
      by (cases "find_node p (n # parents) ?route verb remaining")
    have eq: "route\<lparr>Path := x, PathParams := (PathParams (route\<lparr>Path := x\<rparr>))(paramName p \<mapsto> segment)\<rparr> =
              ?route\<lparr>Path := x\<rparr>"
      by simp
    have "find_node p (n # parents) (?route\<lparr>Path := x\<rparr>) verb remaining =
          (case find_node p (n # parents) ?route verb remaining of (r, e) \<Rightarrow> (r\<lparr>Path := x\<rparr>, e))"
      by (rule other.IH [OF Some])
    then have "find_node p (n # parents) (?route\<lparr>Path := x\<rparr>) verb remaining = (r1\<lparr>Path := x\<rparr>, e1)"
      by (simp only: rec prod.case)
    then have rec': "find_node p (n # parents)
        (route\<lparr>Path := x, PathParams := (PathParams (route\<lparr>Path := x\<rparr>))(paramName p \<mapsto> segment)\<rparr>)
        verb remaining = (r1\<lparr>Path := x\<rparr>, e1)"
      by (simp only: eq)
    show ?thesis
    proof (cases e1)
      case None
      from find_node_param_ok [OF hyps Some rec [unfolded None]]
        find_node_param_ok [OF hyps Some rec' [unfolded None]]
      show ?thesis by simp
    next
      case (Some e)
      from find_node_param_failed [OF hyps \<open>param n = Some p\<close> rec [unfolded Some]]
        find_node_param_failed [OF hyps \<open>param n = Some p\<close> rec' [unfolded Some]]
      show ?thesis
        by (simp add: find_node_terminal split: option.splits)
    qed
  qed
qed

subsection \<open>The shape of the tree\<close>

lemma everywhere_unfold:
  "everywhere P n \<longleftrightarrow>
     P n \<and> list_all (everywhere P) (static n) \<and>
     (case param n of None \<Rightarrow> True | Some c \<Rightarrow> everywhere P c) \<and>
     (case wildcard n of None \<Rightarrow> True | Some c \<Rightarrow> everywhere P c)"
  by (cases n) simp

lemma everywhere_mono:
  assumes "\<And>m. P m \<Longrightarrow> Q m"
  shows "everywhere P n \<Longrightarrow> everywhere Q n"
proof (induction n)
  case (RouteNode p t pn hs ms st pa wc)
  have "list_all (everywhere Q) st"
    using RouteNode.IH(1) RouteNode.prems by (auto simp: list_all_iff)
  moreover have "case pa of None \<Rightarrow> True | Some c \<Rightarrow> everywhere Q c"
    using RouteNode.IH(2) RouteNode.prems by (cases pa) auto
  moreover have "case wc of None \<Rightarrow> True | Some c \<Rightarrow> everywhere Q c"
    using RouteNode.IH(3) RouteNode.prems by (cases wc) auto
  ultimately show ?case
    using RouteNode.prems assms by simp
qed

lemma node_ok_invariant: "node_ok n \<Longrightarrow> node_invariant n"
proof -
  assume ok: "node_ok n"
  have st: "filter (\<lambda>c. routeType c = RouteTypeStatic) (static n) = static n"
       "filter (\<lambda>c. routeType c = RouteTypeParam) (static n) = []"
       "filter (\<lambda>c. routeType c = RouteTypeWildcard) (static n) = []"
    using ok by (auto simp: node_ok_def list_all_iff filter_empty_conv)
  show ?thesis
    using ok st by (auto simp: node_ok_def node_invariant_def children_def split: option.splits)
qed

lemma node_ok_fields:
  "static m = static n \<Longrightarrow> param m = param n \<Longrightarrow> wildcard m = wildcard n \<Longrightarrow>
   node_ok m = node_ok n"
  by (simp add: node_ok_def)

lemma everywhere_new: "everywhere node_ok (NewRouteNode s rt pn)"
  by (simp add: NewRouteNode_def node_ok_def)

lemma list_all_update: "list_all P xs \<Longrightarrow> P x \<Longrightarrow> list_all P (xs[i := x])"
  using set_update_subset_insert [of xs i x] by (auto simp: list_all_iff)

lemma addRoute_routeType: "routeType (fst (addRoute n verb pth handler mws)) = routeType n"
proof (induction n pth rule: addRoute_induct)
  case (terminal n pth)
  then show ?case by (simp add: addRoute_terminal split: option.splits)
next
  case (param n pth segment remaining pname)
  then show ?case by (simp add: addRoute_param split: prod.splits)
next
  case (wildcard n pth segment remaining pname)
  then show ?case by (simp add: addRoute_wildcard split: prod.splits)
next
  case (static_old n pth segment remaining i)
  then show ?case by (simp add: addRoute_static_old split: prod.splits)
next
  case (static_new n pth segment remaining)
  then show ?case by (simp add: addRoute_static_new split: prod.splits)
qed

lemma addRoute_ok:
  "everywhere node_ok n \<Longrightarrow> everywhere node_ok (fst (addRoute n verb pth handler mws))"
proof (induction n pth rule: addRoute_induct)
  case (terminal n pth)
  let ?m = "set_handlers ((handlers n)(verb \<mapsto> handler)) (set_middlewares (middlewares n @ mws) n)"
  have "node_ok ?m = node_ok n"
    by (rule node_ok_fields) simp_all
  with terminal.prems have "everywhere node_ok ?m"
    by (subst everywhere_unfold, subst (asm) everywhere_unfold) simp
  with terminal show ?case
    by (simp add: addRoute_terminal split: option.splits)
next
  case (param n pth segment remaining pname)
  let ?c = "case param n of None \<Rightarrow> NewRouteNode segment RouteTypeParam pname | Some c \<Rightarrow> c"
  let ?child = "fst (addRoute ?c verb remaining handler mws)"
  from param.prems have c: "everywhere node_ok ?c" "routeType ?c = RouteTypeParam"
    by (subst (asm) everywhere_unfold, simp add: everywhere_new node_ok_def split: option.splits)+
  from param.IH [OF c(1)] have child: "everywhere node_ok ?child" .
  have kind: "routeType ?child = RouteTypeParam"
    using c(2) by (simp add: addRoute_routeType)
  have "everywhere node_ok (set_param (Some ?child) n)"
    using param.prems child kind
    by (subst everywhere_unfold, subst (asm) everywhere_unfold) (simp add: node_ok_def)
  then show ?case
    by (simp add: addRoute_param [OF param.hyps] split_beta)
next
  case (wildcard n pth segment remaining pname)
  let ?c = "case wildcard n of None \<Rightarrow> NewRouteNode segment RouteTypeWildcard pname | Some c \<Rightarrow> c"
  let ?child = "fst (addRoute ?c verb remaining handler mws)"
  from wildcard.prems have c: "everywhere node_ok ?c" "routeType ?c = RouteTypeWildcard"
    by (subst (asm) everywhere_unfold, simp add: everywhere_new node_ok_def split: option.splits)+
  from wildcard.IH [OF c(1)] have child: "everywhere node_ok ?child" .
  have kind: "routeType ?child = RouteTypeWildcard"
    using c(2) by (simp add: addRoute_routeType)
  have "everywhere node_ok (set_wildcard (Some ?child) n)"
    using wildcard.prems child kind
    by (subst everywhere_unfold, subst (asm) everywhere_unfold) (simp add: node_ok_def)
  then show ?case
    by (simp add: addRoute_wildcard [OF wildcard.hyps] split_beta)
next
  case (static_old n pth segment remaining i)
  let ?c = "static n ! i"
  let ?child = "fst (addRoute ?c verb remaining handler mws)"
  have i: "i < length (static n)"
    using staticIndex_Some [OF static_old.hyps(5)] by simp
  from static_old.prems have n: "node_ok n" "list_all (everywhere node_ok) (static n)"
    by (subst (asm) everywhere_unfold, simp)+
  from n(2) i have "everywhere node_ok ?c"
    by (simp add: list_all_length)
  from static_old.IH [OF this] have child: "everywhere node_ok ?child" .
  have same: "path ?child = path ?c" "routeType ?child = routeType ?c"
    by (simp_all add: addRoute_path addRoute_routeType)
  have paths: "map path ((static n)[i := ?child]) = map path (static n)"
    by (simp add: map_update same list_update_same_conv i)
  have "routeType ?child = RouteTypeStatic"
    using n(1) i same by (simp add: node_ok_def list_all_length)
  with n(1) have kinds: "list_all (\<lambda>c. routeType c = RouteTypeStatic) ((static n)[i := ?child])"
    by (intro list_all_update) (simp_all add: node_ok_def)
  have all: "list_all (everywhere node_ok) ((static n)[i := ?child])"
    using n(2) child by (rule list_all_update)
  have "everywhere node_ok (set_static ((static n)[i := ?child]) n)"
    using static_old.prems n(1) paths kinds all
    by (subst everywhere_unfold, subst (asm) everywhere_unfold) (simp add: node_ok_def)
  then show ?case
    by (simp add: addRoute_static_old [OF static_old.hyps] split_beta)
next
  case (static_new n pth segment remaining)
  let ?c = "NewRouteNode segment RouteTypeStatic [] :: ('a, 'b) RouteNode"
  let ?child = "fst (addRoute ?c verb remaining handler mws)"
  from static_new.prems have n: "node_ok n" "list_all (everywhere node_ok) (static n)"
    by (subst (asm) everywhere_unfold, simp)+
  from static_new.IH [OF everywhere_new] have child: "everywhere node_ok ?child" .
  have same: "path ?child = segment" "routeType ?child = RouteTypeStatic"
    by (simp_all add: addRoute_path addRoute_routeType)
  have new: "segment \<notin> path ` set (static n)"
    using static_new.hyps(5) by (simp add: staticIndex_None)
  have "everywhere node_ok (set_static (static n @ [?child]) n)"
    using static_new.prems n child same new
    by (subst everywhere_unfold, subst (asm) everywhere_unfold) (simp add: node_ok_def)
  then show ?case
    by (simp add: addRoute_static_new [OF static_new.hyps] split_beta)
qed

lemma nodeAt_ok:
  "everywhere node_ok t \<Longrightarrow> nodeAt t ref = Some g \<Longrightarrow> everywhere node_ok g"
proof (induction ref arbitrary: t)
  case Nil
  then show ?case by simp
next
  case (Cons a ref)
  from Cons.prems(1) have t: "list_all (everywhere node_ok) (static t)"
    "case param t of None \<Rightarrow> True | Some c \<Rightarrow> everywhere node_ok c"
    "case wildcard t of None \<Rightarrow> True | Some c \<Rightarrow> everywhere node_ok c"
    by (subst (asm) everywhere_unfold, simp)+
  show ?case
  proof (cases a)
    case (StaticChild i)
    with Cons.prems(2) have i: "i < length (static t)" "nodeAt (static t ! i) ref = Some g"
      by (simp_all split: if_splits)
    from t(1) i(1) have "everywhere node_ok (static t ! i)"
      by (simp add: list_all_length)
    then show ?thesis using i(2) by (rule Cons.IH)
  next
    case ParamChild
    with Cons.prems(2) obtain c where c: "param t = Some c" "nodeAt c ref = Some g"
      by (auto split: option.splits)
    from t(2) c(1) have "everywhere node_ok c" by simp
    then show ?thesis using c(2) by (rule Cons.IH)
  next
    case WildcardChild
    with Cons.prems(2) obtain c where c: "wildcard t = Some c" "nodeAt c ref = Some g"
      by (auto split: option.splits)
    from t(3) c(1) have "everywhere node_ok c" by simp
    then show ?thesis using c(2) by (rule Cons.IH)
  qed
qed

lemma putAt_same:
  "nodeAt t ref = Some g \<Longrightarrow> path g' = path g \<Longrightarrow> routeType g' = routeType g \<Longrightarrow>
   path (putAt t ref g') = path t \<and> routeType (putAt t ref g') = routeType t"
  by (cases ref; cases "hd ref") (auto split: if_splits option.splits)

lemma putAt_ok:
  "everywhere node_ok t \<Longrightarrow> nodeAt t ref = Some g \<Longrightarrow> everywhere node_ok g' \<Longrightarrow>
   path g' = path g \<Longrightarrow> routeType g' = routeType g \<Longrightarrow> everywhere node_ok (putAt t ref g')"
proof (induction ref arbitrary: t)
  case Nil
  then show ?case by simp
next
  case (Cons a ref)
  from Cons.prems(1) have t: "node_ok t" "list_all (everywhere node_ok) (static t)"
    "case param t of None \<Rightarrow> True | Some c \<Rightarrow> everywhere node_ok c"
    "case wildcard t of None \<Rightarrow> True | Some c \<Rightarrow> everywhere node_ok c"
    by (subst (asm) everywhere_unfold, simp)+
  show ?case
  proof (cases a)
    case (StaticChild i)
    let ?c = "static t ! i"
    let ?child = "putAt ?c ref g'"
    from StaticChild Cons.prems(2) have i: "i < length (static t)" "nodeAt ?c ref = Some g"
      by (simp_all split: if_splits)
    from t(2) i(1) have "everywhere node_ok ?c"
      by (simp add: list_all_length)
    from Cons.IH [OF this i(2) Cons.prems(3-5)] have child: "everywhere node_ok ?child" .
    from putAt_same [OF i(2) Cons.prems(4,5)]
    have same: "path ?child = path ?c" "routeType ?child = routeType ?c"
      by simp_all
    have paths: "map path ((static t)[i := ?child]) = map path (static t)"
      by (simp add: map_update same list_update_same_conv i)
    have "routeType ?child = RouteTypeStatic"
      using t(1) i same by (simp add: node_ok_def list_all_length)
    with t(1) have kinds: "list_all (\<lambda>c. routeType c = RouteTypeStatic) ((static t)[i := ?child])"
      by (intro list_all_update) (simp_all add: node_ok_def)
    have all: "list_all (everywhere node_ok) ((static t)[i := ?child])"
      using t(2) child by (rule list_all_update)
    have "everywhere node_ok (set_static ((static t)[i := ?child]) t)"
      using Cons.prems(1) t(1) paths kinds all
      by (subst everywhere_unfold, subst (asm) everywhere_unfold) (simp add: node_ok_def)
    with StaticChild i(1) show ?thesis by simp
  next
    case ParamChild
    with Cons.prems(2) obtain c where c: "param t = Some c" "nodeAt c ref = Some g"
      by (auto split: option.splits)
    from t(3) c(1) have "everywhere node_ok c" by simp
    from Cons.IH [OF this c(2) Cons.prems(3-5)] have child: "everywhere node_ok (putAt c ref g')" .
    from putAt_same [OF c(2) Cons.prems(4,5)] t(1) c(1)
    have kind: "routeType (putAt c ref g') = RouteTypeParam"
      by (simp add: node_ok_def)
    have "everywhere node_ok (set_param (Some (putAt c ref g')) t)"
      using Cons.prems(1) child kind
      by (subst everywhere_unfold, subst (asm) everywhere_unfold) (simp add: node_ok_def)
    with ParamChild c(1) show ?thesis by simp
  next
    case WildcardChild
    with Cons.prems(2) obtain c where c: "wildcard t = Some c" "nodeAt c ref = Some g"
      by (auto split: option.splits)
    from t(4) c(1) have "everywhere node_ok c" by simp
    from Cons.IH [OF this c(2) Cons.prems(3-5)] have child: "everywhere node_ok (putAt c ref g')" .
    from putAt_same [OF c(2) Cons.prems(4,5)] t(1) c(1)
    have kind: "routeType (putAt c ref g') = RouteTypeWildcard"
      by (simp add: node_ok_def)
    have "everywhere node_ok (set_wildcard (Some (putAt c ref g')) t)"
      using Cons.prems(1) child kind
      by (subst everywhere_unfold, subst (asm) everywhere_unfold) (simp add: node_ok_def)
    with WildcardChild c(1) show ?thesis by simp
  qed
qed

lemma reachable_ok: "reachable t \<Longrightarrow> everywhere node_ok t"
proof (induction rule: reachable.induct)
  case fresh
  show ?case by (rule everywhere_new)
next
  case (insert t verb pth handler mws t' res)
  from insert.hyps(2) have "t' = fst (addRoute t verb pth handler mws)"
    by (auto simp: Route_def split: prod.splits sum.splits)
  with insert.IH show ?case
    by (simp add: addRoute_ok)
next
  case (insert_at t ref verb pth handler mws t' res)
  from insert_at.hyps(2) obtain g where g: "nodeAt t ref = Some g"
    and t': "t' = putAt t ref (fst (addRoute g verb pth handler mws))"
    by (auto simp: RouteAt_def Route_def split: option.splits prod.splits sum.splits)
  from nodeAt_ok [OF insert_at.IH g] have "everywhere node_ok (fst (addRoute g verb pth handler mws))"
    by (rule addRoute_ok)
  with insert_at.IH g show ?case
    unfolding t' by (rule putAt_ok) (simp_all add: addRoute_path addRoute_routeType)
qed

lemma reachable_Route: "reachable t \<Longrightarrow> reachable (fst (Route t verb pth handler mws))"
  by (metis reachable.insert prod.collapse)

subsection \<open>The destination of a registration\<close>

lemma destination_terminal: "pth = [] \<or> pth = ''/'' \<Longrightarrow> destination n pth = Some n"
  by (subst destination.simps) simp

lemma destination_param:
  assumes "pth \<noteq> []" "pth \<noteq> ''/''" "getPathSegment (stripSlash pth) = (segment, remaining)"
    and "getRouteTypeFromSegment segment = (RouteTypeParam, pname)"
  shows "destination n pth =
           (case param n of None \<Rightarrow> None | Some c \<Rightarrow> destination c remaining)"
  using assms by (subst destination.simps) simp

lemma destination_wildcard:
  assumes "pth \<noteq> []" "pth \<noteq> ''/''" "getPathSegment (stripSlash pth) = (segment, remaining)"
    and "getRouteTypeFromSegment segment = (RouteTypeWildcard, pname)"
  shows "destination n pth =
           (case wildcard n of None \<Rightarrow> None | Some c \<Rightarrow> destination c remaining)"
  using assms by (subst destination.simps) simp

lemma destination_static:
  assumes "pth \<noteq> []" "pth \<noteq> ''/''" "getPathSegment (stripSlash pth) = (segment, remaining)"
    and "getRouteTypeFromSegment segment = (RouteTypeStatic, pname)"
  shows "destination n pth =
           (case staticIndex segment (static n) of
              None \<Rightarrow> None
            | Some i \<Rightarrow> destination (static n ! i) remaining)"
  using assms by (subst destination.simps) simp

text \<open>A registration whose destination binds the verb is rejected and changes nothing.\<close>

lemma bound_rejected:
  "destination n pth = Some d \<Longrightarrow> handlers d verb \<noteq> None \<Longrightarrow>
   addRoute n verb pth handler mws = (n, Inl ErrRouteAlreadyExists)"
proof (induction n pth rule: addRoute_induct)
  case (terminal n pth)
  then show ?case
    by (auto simp: addRoute_terminal destination_terminal)
next
  case (param n pth segment remaining pname)
  note hyps = param.hyps
  from param.prems obtain c where c: "param n = Some c" "destination c remaining = Some d"
    by (auto simp: destination_param [OF hyps] split: option.splits)
  with param.IH param.prems(2)
  have "addRoute c verb remaining handler mws = (c, Inl ErrRouteAlreadyExists)"
    by simp
  with c show ?case
    by (simp add: addRoute_param [OF hyps] set_unchanged)
next
  case (wildcard n pth segment remaining pname)
  note hyps = wildcard.hyps
  from wildcard.prems obtain c where c: "wildcard n = Some c" "destination c remaining = Some d"
    by (auto simp: destination_wildcard [OF hyps] split: option.splits)
  with wildcard.IH wildcard.prems(2)
  have "addRoute c verb remaining handler mws = (c, Inl ErrRouteAlreadyExists)"
    by simp
  with c show ?case
    by (simp add: addRoute_wildcard [OF hyps] set_unchanged)
next
  case (static_old n pth segment remaining i)
  note hyps = static_old.hyps(1-4)
  from static_old.prems static_old.hyps(5)
  have "destination (static n ! i) remaining = Some d"
    by (simp add: destination_static [OF hyps])
  with static_old.IH static_old.prems(2)
  have "addRoute (static n ! i) verb remaining handler mws =
          (static n ! i, Inl ErrRouteAlreadyExists)"
    by simp
  then show ?case
    by (simp add: addRoute_static_old [OF hyps static_old.hyps(5)] set_unchanged)
next
  case (static_new n pth segment remaining)
  note hyps = static_new.hyps(1-4)
  from static_new.prems static_new.hyps(5) show ?case
    by (simp add: destination_static [OF hyps])
qed

text \<open>After a registration that succeeded, the destination of its path is the node it
  returned, and it binds the verb to the handler.\<close>

lemma addRoute_destination:
  "addRoute n verb pth handler mws = (n', Inr ref) \<Longrightarrow>
   \<exists>d. destination n' pth = Some d \<and> nodeAt n' ref = Some d \<and> handlers d verb = Some handler"
proof (induction n pth arbitrary: n' ref rule: addRoute_induct)
  case (terminal n pth)
  then show ?case
    by (auto simp: addRoute_terminal destination_terminal split: option.splits)
next
  case (param n pth segment remaining pname)
  note hyps = param.hyps
  let ?c = "case param n of None \<Rightarrow> NewRouteNode segment RouteTypeParam pname | Some c \<Rightarrow> c"
  from param.prems obtain child r where
    rec: "addRoute ?c verb remaining handler mws = (child, Inr r)"
    and n': "n' = set_param (Some child) n" and ref: "ref = ParamChild # r"
    by (auto simp: addRoute_param [OF hyps] map_sum_id_Inr split: prod.splits)
  from param.IH [OF rec] show ?case
    by (simp add: n' ref destination_param [OF hyps])
next
  case (wildcard n pth segment remaining pname)
  note hyps = wildcard.hyps
  let ?c = "case wildcard n of None \<Rightarrow> NewRouteNode segment RouteTypeWildcard pname | Some c \<Rightarrow> c"
  from wildcard.prems obtain child r where
    rec: "addRoute ?c verb remaining handler mws = (child, Inr r)"
    and n': "n' = set_wildcard (Some child) n" and ref: "ref = WildcardChild # r"
    by (auto simp: addRoute_wildcard [OF hyps] map_sum_id_Inr split: prod.splits)
  from wildcard.IH [OF rec] show ?case
    by (simp add: n' ref destination_wildcard [OF hyps])
next
  case (static_old n pth segment remaining i)
  note hyps = static_old.hyps(1-4)
  note idx = static_old.hyps(5)
  from static_old.prems obtain child r where
    rec: "addRoute (static n ! i) verb remaining handler mws = (child, Inr r)"
    and n': "n' = set_static ((static n)[i := child]) n" and ref: "ref = StaticChild i # r"
    by (auto simp: addRoute_static_old [OF hyps idx] map_sum_id_Inr split: prod.splits)
  from staticIndex_Some [OF idx] have i: "i < length (static n)" "path (static n ! i) = segment"
    by simp_all
  from addRoute_path [of "static n ! i" verb remaining handler mws] rec i
  have "path child = segment" by simp
  from staticIndex_update [OF idx this] static_old.IH [OF rec] i show ?case
    by (simp add: n' ref destination_static [OF hyps])
next
  case (static_new n pth segment remaining)
  note hyps = static_new.hyps(1-4)
  note idx = static_new.hyps(5)
  from static_new.prems obtain child r where
    rec: "addRoute (NewRouteNode segment RouteTypeStatic []) verb remaining handler mws =
            (child, Inr r)"
    and n': "n' = set_static (static n @ [child]) n"
    and ref: "ref = StaticChild (length (static n)) # r"
    by (auto simp: addRoute_static_new [OF hyps idx] map_sum_id_Inr split: prod.splits)
  from addRoute_path [of "NewRouteNode segment RouteTypeStatic []" verb remaining handler mws] rec
  have "path child = segment" by (simp add: NewRouteNode_def)
  from staticIndex_append_new [OF idx this] static_new.IH [OF rec] show ?case
    by (simp add: n' ref destination_static [OF hyps])
qed

text \<open>A registration keeps every node where it is, with every entry of its handlers.\<close>

lemma addRoute_keeps:
  "nodeAt n ref = Some a \<Longrightarrow>
   \<exists>a'. nodeAt (fst (addRoute n verb pth handler mws)) ref = Some a' \<and>
        handlers a \<subseteq>\<^sub>m handlers a'"
proof (induction n pth arbitrary: ref a rule: addRoute_induct)
  case (terminal n pth)
  show ?case
  proof (cases ref)
    case Nil
    with terminal show ?thesis
      by (auto simp: addRoute_terminal map_le_def split: option.splits)
  next
    case (Cons x r)
    with terminal show ?thesis
      by (cases x) (auto simp: addRoute_terminal split: option.splits if_splits)
  qed
next
  case (param n pth segment remaining pname)
  note hyps = param.hyps
  show ?case
  proof (cases ref)
    case Nil
    with param.prems show ?thesis
      by (simp add: addRoute_param [OF hyps] split_beta)
  next
    case (Cons x r)
    show ?thesis
    proof (cases x)
      case ParamChild
      with param.prems Cons obtain c where c: "param n = Some c" "nodeAt c r = Some a"
        by (auto split: option.splits)
      from param.IH [of r a] c show ?thesis
        by (simp add: addRoute_param [OF hyps] split_beta Cons ParamChild)
    next
      case (StaticChild i)
      with param.prems Cons show ?thesis
        by (auto simp: addRoute_param [OF hyps] split_beta split: if_splits)
    next
      case WildcardChild
      with param.prems Cons show ?thesis
        by (auto simp: addRoute_param [OF hyps] split_beta split: if_splits)
    qed
  qed
next
  case (wildcard n pth segment remaining pname)
  note hyps = wildcard.hyps
  show ?case
  proof (cases ref)
    case Nil
    with wildcard.prems show ?thesis
      by (simp add: addRoute_wildcard [OF hyps] split_beta)
  next
    case (Cons x r)
    show ?thesis
    proof (cases x)
      case WildcardChild
      with wildcard.prems Cons obtain c where c: "wildcard n = Some c" "nodeAt c r = Some a"
        by (auto split: option.splits)
      from wildcard.IH [of r a] c show ?thesis
        by (simp add: addRoute_wildcard [OF hyps] split_beta Cons WildcardChild)
    next
      case (StaticChild i)
      with wildcard.prems Cons show ?thesis
        by (auto simp: addRoute_wildcard [OF hyps] split_beta split: if_splits)
    next
      case ParamChild
      with wildcard.prems Cons show ?thesis
        by (auto simp: addRoute_wildcard [OF hyps] split_beta split: if_splits)
    qed
  qed
next
  case (static_old n pth segment remaining i)
  note hyps = static_old.hyps(1-4)
  note idx = static_old.hyps(5)
  from staticIndex_Some [OF idx] have i: "i < length (static n)"
    by simp
  show ?case
  proof (cases ref)
    case Nil
    show ?thesis
      unfolding addRoute_static_old [OF hyps idx] using static_old.prems Nil
      by (simp add: split_beta)
  next
    case (Cons x r)
    show ?thesis
    proof (cases x)
      case (StaticChild j)
      with static_old.prems Cons have j: "j < length (static n)" "nodeAt (static n ! j) r = Some a"
        by (auto split: if_splits)
      show ?thesis
      proof (cases "j = i")
        case True
        with static_old.IH [of r a] j show ?thesis
          by (simp add: addRoute_static_old [OF hyps idx] split_beta Cons StaticChild)
      next
        case False
        with j show ?thesis
          by (simp add: addRoute_static_old [OF hyps idx] split_beta Cons StaticChild)
      qed
    next
      case ParamChild
      with static_old.prems Cons show ?thesis
        by (auto simp: addRoute_static_old [OF hyps idx] split_beta split: if_splits)
    next
      case WildcardChild
      with static_old.prems Cons show ?thesis
        by (auto simp: addRoute_static_old [OF hyps idx] split_beta split: if_splits)
    qed
  qed
next
  case (static_new n pth segment remaining)
  note hyps = static_new.hyps(1-4)
  note idx = static_new.hyps(5)
  show ?case
  proof (cases ref)
    case Nil
    show ?thesis
      unfolding addRoute_static_new [OF hyps idx] using static_new.prems Nil
      by (simp add: split_beta)
  next
    case (Cons x r)
    with static_new.prems show ?thesis
      by (cases x)
         (auto simp: addRoute_static_new [OF hyps idx] split_beta nth_append split: if_splits)
  qed
qed

lemma putAt_id: "nodeAt t ref = Some g \<Longrightarrow> putAt t ref g = t"
proof (induction ref arbitrary: t)
  case Nil
  then show ?case by simp
next
  case (Cons x r)
  then show ?case
    by (cases x) (auto simp: set_unchanged split: if_splits option.splits)
qed

lemma putAt_keeps:
  assumes "\<And>r a. nodeAt g r = Some a \<Longrightarrow> \<exists>a'. nodeAt g' r = Some a' \<and> handlers a \<subseteq>\<^sub>m handlers a'"
  shows "nodeAt t at = Some g \<Longrightarrow> nodeAt t ref = Some a \<Longrightarrow>
         \<exists>a'. nodeAt (putAt t at g') ref = Some a' \<and> handlers a \<subseteq>\<^sub>m handlers a'"
proof (induction at arbitrary: t ref a)
  case Nil
  with assms show ?case by simp
next
  case (Cons x r)
  show ?case
  proof (cases ref)
    case Nil
    with Cons.prems show ?thesis
      by (cases x) (auto split: if_splits option.splits)
  next
    case (Cons y s)
    note ref = Cons
    show ?thesis
    proof (cases x)
      case (StaticChild i)
      with Cons.prems have i: "i < length (static t)" "nodeAt (static t ! i) r = Some g"
        by (auto split: if_splits)
      show ?thesis
      proof (cases "y = StaticChild i")
        case True
        with Cons.prems(2) ref i have "nodeAt (static t ! i) s = Some a"
          by simp
        from Cons.IH [OF i(2) this] i True show ?thesis
          by (simp add: ref StaticChild)
      next
        case False
        with Cons.prems(2) i show ?thesis
          by (cases y) (auto simp: ref StaticChild split: if_splits)
      qed
    next
      case ParamChild
      with Cons.prems obtain c where c: "param t = Some c" "nodeAt c r = Some g"
        by (auto split: option.splits)
      show ?thesis
      proof (cases y)
        case ParamChild
        with Cons.prems(2) ref c have "nodeAt c s = Some a"
          by simp
        from Cons.IH [OF c(2) this] c show ?thesis
          by (simp add: ref \<open>x = ParamChild\<close> \<open>y = ParamChild\<close>)
      next
        case (StaticChild j)
        with Cons.prems(2) c show ?thesis
          by (auto simp: ref \<open>x = ParamChild\<close> split: if_splits)
      next
        case WildcardChild
        with Cons.prems(2) c show ?thesis
          by (auto simp: ref \<open>x = ParamChild\<close> split: if_splits)
      qed
    next
      case WildcardChild
      with Cons.prems obtain c where c: "wildcard t = Some c" "nodeAt c r = Some g"
        by (auto split: option.splits)
      show ?thesis
      proof (cases y)
        case WildcardChild
        with Cons.prems(2) ref c have "nodeAt c s = Some a"
          by simp
        from Cons.IH [OF c(2) this] c show ?thesis
          by (simp add: ref \<open>x = WildcardChild\<close> \<open>y = WildcardChild\<close>)
      next
        case (StaticChild j)
        with Cons.prems(2) c show ?thesis
          by (auto simp: ref \<open>x = WildcardChild\<close> split: if_splits)
      next
        case ParamChild
        with Cons.prems(2) c show ?thesis
          by (auto simp: ref \<open>x = WildcardChild\<close> split: if_splits)
      qed
    qed
  qed
qed


lemma Route_keeps:
  "Route n verb pth handler mws = (n', res) \<Longrightarrow> nodeAt n ref = Some a \<Longrightarrow>
   \<exists>a'. nodeAt n' ref = Some a' \<and> handlers a \<subseteq>\<^sub>m handlers a'"
  using addRoute_keeps [of n ref a verb pth handler mws]
  by (auto simp: Route_def split: prod.splits sum.splits)

subsection \<open>Groups\<close>

lemma forget_sel [simp]:
  "path (forget_empty_verb n) = path n" "routeType (forget_empty_verb n) = routeType n"
  "paramName (forget_empty_verb n) = paramName n"
  "handlers (forget_empty_verb n) = (handlers n)([] := None)"
  "middlewares (forget_empty_verb n) = middlewares n"
  "static (forget_empty_verb n) = map forget_empty_verb (static n)"
  "param (forget_empty_verb n) = map_option forget_empty_verb (param n)"
  "wildcard (forget_empty_verb n) = map_option forget_empty_verb (wildcard n)"
  by (cases n; simp)+

lemma forget_set:
  "forget_empty_verb (set_handlers hs n) = set_handlers (hs([] := None)) (forget_empty_verb n)"
  "forget_empty_verb (set_middlewares ms n) = set_middlewares ms (forget_empty_verb n)"
  "forget_empty_verb (set_static st n) = set_static (map forget_empty_verb st) (forget_empty_verb n)"
  "forget_empty_verb (set_param pa n) = set_param (map_option forget_empty_verb pa) (forget_empty_verb n)"
  "forget_empty_verb (set_wildcard wc n) =
     set_wildcard (map_option forget_empty_verb wc) (forget_empty_verb n)"
  by (cases n; simp)+

lemma forget_new [simp]: "forget_empty_verb (NewRouteNode s rt pn) = NewRouteNode s rt pn"
  by (simp add: NewRouteNode_def)

lemma staticIndex_forget [simp]:
  "staticIndex s (map forget_empty_verb xs) = staticIndex s xs"
  by (induction xs) auto

lemma staticMatch_forget [simp]:
  "staticMatch s (map forget_empty_verb xs) = map_option forget_empty_verb (staticMatch s xs)"
proof (cases "staticIndex s xs")
  case None
  then show ?thesis by (simp add: staticMatch_def)
next
  case (Some i)
  with staticIndex_Some [OF Some] show ?thesis by (simp add: staticMatch_def)
qed

text \<open>A lookup with a verb that is not empty does not see the entries of the empty verb.\<close>

lemma find_node_forget:
  assumes "verb \<noteq> []"
  shows "find_node (forget_empty_verb n) parents route verb pth = find_node n parents route verb pth"
proof (induction n parents route pth rule: find_node_induct)
  case (terminal n parents route pth)
  have "collectMiddlewares (forget_empty_verb n) parents mws = collectMiddlewares n parents mws" for mws
    by (simp add: collectMiddlewares_eq)
  with terminal assms show ?case
    by (simp add: find_node_terminal split: option.splits)
next
  case (static n parents route pth segment remaining child)
  have m: "staticMatch segment (static (forget_empty_verb n)) = Some (forget_empty_verb child)"
    using static.hyps(4) by simp
  have "find_node (forget_empty_verb n) parents route verb pth =
        find_node (forget_empty_verb child) (forget_empty_verb n # parents) route verb remaining"
    by (rule find_node_static [OF static.hyps(1-3) m])
  also have "\<dots> = find_node (forget_empty_verb child) (n # parents) route verb remaining"
    by (rule find_node_parents_cong) simp
  also have "\<dots> = find_node child (n # parents) route verb remaining"
    by (rule static.IH)
  also have "\<dots> = find_node n parents route verb pth"
    by (rule find_node_static [OF static.hyps, symmetric])
  finally show ?case .
next
  case (other n parents route pth segment remaining)
  note hyps = other.hyps(1-3)
  have m: "staticMatch segment (static (forget_empty_verb n)) = None"
    using other.hyps(4) by simp
  have wild: "find_node (forget_empty_verb w) (forget_empty_verb n # parents) rt verb [] =
              find_node w (n # parents) rt verb []" for w rt
    using assms by (simp add: find_node_terminal collectMiddlewares_eq split: option.splits)
  show ?case
  proof (cases "param n")
    case None
    then have "param (forget_empty_verb n) = None" by simp
    from find_node_no_param [OF hyps m this] find_node_no_param [OF other.hyps None]
    show ?thesis
      by (cases "wildcard n") (simp_all add: wild)
  next
    case (Some p)
    let ?route = "route\<lparr>PathParams := (PathParams route)(paramName p \<mapsto> segment)\<rparr>"
    from Some have par: "param (forget_empty_verb n) = Some (forget_empty_verb p)" by simp
    obtain r1 e1 where rec: "find_node p (n # parents) ?route verb remaining = (r1, e1)"
      by (cases "find_node p (n # parents) ?route verb remaining")
    have "find_node (forget_empty_verb p) (forget_empty_verb n # parents) ?route verb remaining =
          find_node (forget_empty_verb p) (n # parents) ?route verb remaining"
      by (rule find_node_parents_cong) simp
    with other.IH [OF Some] rec
    have rec': "find_node (forget_empty_verb p) (forget_empty_verb n # parents)
        (route\<lparr>PathParams := (PathParams route)(paramName (forget_empty_verb p) \<mapsto> segment)\<rparr>)
        verb remaining = (r1, e1)"
      by simp
    show ?thesis
    proof (cases e1)
      case None
      from find_node_param_ok [OF hyps m par rec' [unfolded None]]
        find_node_param_ok [OF other.hyps Some rec [unfolded None]]
      show ?thesis by simp
    next
      case (Some e)
      from find_node_param_failed [OF hyps m par rec' [unfolded Some]]
        find_node_param_failed [OF other.hyps \<open>param n = Some p\<close> rec [unfolded Some]]
      show ?thesis
        by (cases "wildcard n") (simp_all add: wild)
    qed
  qed
qed

lemma Find_forget:
  "verb \<noteq> [] \<Longrightarrow> Find (forget_empty_verb n) verb pth = Find n verb pth"
  by (simp add: Find_def find_node_forget)

text \<open>A registration with a verb that is not empty does not see them either.\<close>

lemma addRoute_forget:
  assumes "verb \<noteq> []"
  shows "addRoute (forget_empty_verb n) verb pth handler mws =
           (forget_empty_verb (fst (addRoute n verb pth handler mws)),
            snd (addRoute n verb pth handler mws))"
proof (induction n pth rule: addRoute_induct)
  case (terminal n pth)
  have "(handlers n)([] := None, verb \<mapsto> handler) = (handlers n)(verb \<mapsto> handler, [] := None)"
    using assms by (simp add: fun_upd_twist)
  with terminal assms show ?case
    by (simp add: addRoute_terminal forget_set split: option.splits)
next
  case (param n pth segment remaining pname)
  let ?c = "case param n of None \<Rightarrow> NewRouteNode segment RouteTypeParam pname | Some c \<Rightarrow> c"
  have c: "(case param (forget_empty_verb n) of
              None \<Rightarrow> NewRouteNode segment RouteTypeParam pname | Some c \<Rightarrow> c) = forget_empty_verb ?c"
    by (cases "param n") simp_all
  have "addRoute (forget_empty_verb n) verb pth handler mws =
     (case addRoute (forget_empty_verb ?c) verb remaining handler mws of
        (child, res) \<Rightarrow> (set_param (Some child) (forget_empty_verb n), map_sum id (Cons ParamChild) res))"
    by (simp only: addRoute_param [OF param.hyps] c)
  then show ?case
    by (simp add: addRoute_param [OF param.hyps, of n] param.IH forget_set split_beta)
next
  case (wildcard n pth segment remaining pname)
  let ?c = "case wildcard n of None \<Rightarrow> NewRouteNode segment RouteTypeWildcard pname | Some c \<Rightarrow> c"
  have c: "(case wildcard (forget_empty_verb n) of
              None \<Rightarrow> NewRouteNode segment RouteTypeWildcard pname | Some c \<Rightarrow> c) = forget_empty_verb ?c"
    by (cases "wildcard n") simp_all
  have "addRoute (forget_empty_verb n) verb pth handler mws =
     (case addRoute (forget_empty_verb ?c) verb remaining handler mws of
        (child, res) \<Rightarrow>
          (set_wildcard (Some child) (forget_empty_verb n), map_sum id (Cons WildcardChild) res))"
    by (simp only: addRoute_wildcard [OF wildcard.hyps] c)
  then show ?case
    by (simp add: addRoute_wildcard [OF wildcard.hyps, of n] wildcard.IH forget_set split_beta)
next
  case (static_old n pth segment remaining i)
  have i: "i < length (static n)"
    using staticIndex_Some [OF static_old.hyps(5)] by simp
  have idx: "staticIndex segment (static (forget_empty_verb n)) = Some i"
    using static_old.hyps(5) by simp
  show ?case
    by (simp add: addRoute_static_old [OF static_old.hyps(1-4) idx]
        addRoute_static_old [OF static_old.hyps] i static_old.IH forget_set split_beta map_update)
next
  case (static_new n pth segment remaining)
  have idx: "staticIndex segment (static (forget_empty_verb n)) = None"
    using static_new.hyps(5) by simp
  let ?child = "fst (addRoute (NewRouteNode segment RouteTypeStatic []) verb remaining handler mws)"
  have "forget_empty_verb ?child = ?child"
    using static_new.IH by (metis fst_conv forget_new)
  then show ?case
    by (simp add: addRoute_static_new [OF static_new.hyps(1-4) idx]
        addRoute_static_new [OF static_new.hyps] forget_set split_beta)
qed

subsection \<open>A prefix followed by a path\<close>

lemma stripSlash_append: "prefix \<noteq> [] \<Longrightarrow> stripSlash (prefix @ p) = stripSlash prefix @ p"
  by (cases prefix) (simp_all add: stripSlash_def)

lemma stripSlash_last:
  "prefix \<noteq> [] \<Longrightarrow> prefix \<noteq> ''/'' \<Longrightarrow> stripSlash prefix \<noteq> [] \<and> last (stripSlash prefix) = last prefix"
  by (cases prefix) (auto simp: stripSlash_def)

lemma getPathSegment_append:
  assumes q: "q \<noteq> []" "last q \<noteq> CHR ''/''" and p: "p = [] \<or> hd p = CHR ''/''"
    and seg: "getPathSegment q = (segment, remaining)"
  shows "getPathSegment (q @ p) =
           (segment, if remaining = [] \<and> p = ''/'' then [] else remaining @ p) \<and>
         (remaining = [] \<or> last remaining \<noteq> CHR ''/'')"
proof (cases "CHR ''/'' \<in> set q")
  case True
  let ?a = "takeWhile (\<lambda>c. c \<noteq> CHR ''/'') q"
  let ?b = "dropWhile (\<lambda>c. c \<noteq> CHR ''/'') q"
  from True have "?b \<noteq> []"
    by (simp add: dropWhile_eq_Nil_conv)
  moreover have "hd ?b = CHR ''/''"
    using hd_dropWhile [OF \<open>?b \<noteq> []\<close>] by simp
  ultimately obtain rest where b: "?b = CHR ''/'' # rest"
    by (cases ?b) auto
  have qq: "q = ?a @ CHR ''/'' # rest"
    using takeWhile_dropWhile_id [of "\<lambda>c. c \<noteq> CHR ''/''" q] b by simp
  have rest: "rest \<noteq> []"
  proof
    assume "rest = []"
    with qq have "last q = CHR ''/''"
      by (metis last_snoc)
    with q(2) show False by simp
  qed
  have lastr: "last rest = last q"
    using qq rest by (metis last_ConsR last_appendR list.distinct(1))
  from True obtain x where x: "x \<in> set q" "\<not> x \<noteq> CHR ''/''"
    by blast
  have ta: "takeWhile (\<lambda>c. c \<noteq> CHR ''/'') (q @ p) = ?a"
    using x by (rule takeWhile_append1)
  have da: "dropWhile (\<lambda>c. c \<noteq> CHR ''/'') (q @ p) = ?b @ p"
    using x by (rule dropWhile_append1)
  from seg True b rest have r: "segment = ?a" "remaining = CHR ''/'' # rest"
    by (auto simp: getPathSegment_def SplitN2_def Let_def)
  have "getPathSegment (q @ p) = (?a, CHR ''/'' # rest @ p)"
    using True rest by (simp add: getPathSegment_def SplitN2_def Let_def ta da b)
  with r rest lastr q(2) show ?thesis
    by simp
next
  case False
  with seg have r: "segment = q" "remaining = []"
    by (simp_all add: getPathSegment_def SplitN2_def)
  show ?thesis
  proof (cases "p = []")
    case True
    with seg r show ?thesis by simp
  next
    case nonempty: False
    with p obtain rest where pp: "p = CHR ''/'' # rest"
      by (cases p) auto
    have all: "x \<noteq> CHR ''/''" if "x \<in> set q" for x
      using that False by auto
    have ta: "takeWhile (\<lambda>c. c \<noteq> CHR ''/'') (q @ p) = q"
      using takeWhile_append2 [of q "\<lambda>c. c \<noteq> CHR ''/''" p, OF all] by (simp add: pp)
    have da: "dropWhile (\<lambda>c. c \<noteq> CHR ''/'') (q @ p) = p"
      using dropWhile_append2 [of q "\<lambda>c. c \<noteq> CHR ''/''" p, OF all] by (simp add: pp)
    have "getPathSegment (q @ p) = (q, if rest \<noteq> [] then p else [])"
      by (simp add: getPathSegment_def SplitN2_def Let_def ta da) (simp add: pp)
    with r pp show ?thesis
      by auto
  qed
qed

lemma prefix_step:
  assumes "prefix \<noteq> []" "prefix \<noteq> ''/''" "last prefix \<noteq> CHR ''/''" "p = [] \<or> hd p = CHR ''/''"
    and "getPathSegment (stripSlash prefix) = (segment, remaining)"
  shows "prefix @ p \<noteq> []" "prefix @ p \<noteq> ''/''"
    "getPathSegment (stripSlash (prefix @ p)) =
       (segment, if remaining = [] \<and> p = ''/'' then [] else remaining @ p)"
    "remaining = [] \<or> last remaining \<noteq> CHR ''/''"
proof -
  show "prefix @ p \<noteq> []" using assms(1) by simp
  show "prefix @ p \<noteq> ''/''"
    using assms(1,2) by (cases prefix) auto
  from stripSlash_last [OF assms(1,2)] assms(3)
  have q: "stripSlash prefix \<noteq> []" "last (stripSlash prefix) \<noteq> CHR ''/''"
    by simp_all
  from getPathSegment_append [OF q assms(4,5)]
  show "getPathSegment (stripSlash (prefix @ p)) =
       (segment, if remaining = [] \<and> p = ''/'' then [] else remaining @ p)"
    "remaining = [] \<or> last remaining \<noteq> CHR ''/''"
    by (simp_all add: stripSlash_append [OF assms(1)])
qed

lemma map_sum_ident: "map_sum (\<lambda>a. a) (\<lambda>a. a) x = x"
  by (cases x) auto

lemma getPathSegment_append_slash:
  assumes q: "q \<noteq> []" "last q = CHR ''/''" and p: "p \<noteq> []" "hd p \<noteq> CHR ''/''"
    and seg: "getPathSegment q = (segment, remaining)"
  shows "getPathSegment (q @ p) =
           (segment, if remaining = [] then CHR ''/'' # p else remaining @ p) \<and>
         (remaining = [] \<or> last remaining = CHR ''/'')"
proof -
  let ?a = "takeWhile (\<lambda>c. c \<noteq> CHR ''/'') q"
  let ?b = "dropWhile (\<lambda>c. c \<noteq> CHR ''/'') q"
  from q have True: "CHR ''/'' \<in> set q"
    by (metis last_in_set)
  then have "?b \<noteq> []"
    by (simp add: dropWhile_eq_Nil_conv)
  moreover have "hd ?b = CHR ''/''"
    using hd_dropWhile [OF \<open>?b \<noteq> []\<close>] by simp
  ultimately obtain rest where b: "?b = CHR ''/'' # rest"
    by (cases ?b) auto
  have qq: "q = ?a @ CHR ''/'' # rest"
    using takeWhile_dropWhile_id [of "\<lambda>c. c \<noteq> CHR ''/''" q] b by simp
  from True obtain x where x: "x \<in> set q" "\<not> x \<noteq> CHR ''/''"
    by blast
  have ta: "takeWhile (\<lambda>c. c \<noteq> CHR ''/'') (q @ p) = ?a"
    using x by (rule takeWhile_append1)
  have da: "dropWhile (\<lambda>c. c \<noteq> CHR ''/'') (q @ p) = ?b @ p"
    using x by (rule dropWhile_append1)
  from seg True b have r: "segment = ?a" "remaining = (if rest \<noteq> [] then CHR ''/'' # rest else [])"
    by (auto simp: getPathSegment_def SplitN2_def Let_def)
  have app: "getPathSegment (q @ p) = (?a, CHR ''/'' # rest @ p)"
    using True p(1) by (simp add: getPathSegment_def SplitN2_def Let_def ta da b)
  show ?thesis
  proof (cases "rest = []")
    case True
    with r app show ?thesis by simp
  next
    case False
    then have "last rest = last q"
      using qq by (metis last_ConsR last_appendR list.distinct(1))
    with False r app q(2) show ?thesis by simp
  qed
qed

text \<open>One step of the descent along a prefix that a path follows: the segment is that of
  the prefix, and the remainder is that of the prefix followed by the path, up to a slash
  that \<open>addRoute\<close> passes over.\<close>

lemma junction_step:
  assumes "prefix \<noteq> []" "prefix \<noteq> ''/''" "meets prefix p"
    and "getPathSegment (stripSlash prefix) = (segment, remaining)"
  obtains R where "prefix @ p \<noteq> []" "prefix @ p \<noteq> ''/''"
    "getPathSegment (stripSlash (prefix @ p)) = (segment, R)"
    "R = remaining @ p \<or> (remaining = [] \<and> p = ''/'' \<and> R = []) \<or>
     (remaining = [] \<and> p \<noteq> [] \<and> hd p \<noteq> CHR ''/'' \<and> R = CHR ''/'' # p)"
    "meets remaining p"
proof -
  have ne: "prefix @ p \<noteq> []" "prefix @ p \<noteq> ''/''"
    using assms(1,2) by (cases prefix; auto)+
  from stripSlash_last [OF assms(1,2)]
  have q: "stripSlash prefix \<noteq> []" "last (stripSlash prefix) = last prefix"
    by simp_all
  show ?thesis
  proof (cases "p = []")
    case True
    with assms(4) ne show ?thesis
      by (intro that [of remaining]) (simp_all add: meets_def)
  next
    case False
    show ?thesis
    proof (cases "last prefix = CHR ''/''")
      case True
      with assms(1,3) False have hd: "hd p \<noteq> CHR ''/''"
        by (simp add: meets_def)
      from True q have "last (stripSlash prefix) = CHR ''/''"
        by simp
      from getPathSegment_append_slash [OF q(1) this False hd assms(4)]
      have seg: "getPathSegment (stripSlash (prefix @ p)) =
                   (segment, if remaining = [] then CHR ''/'' # p else remaining @ p)"
        and last: "remaining = [] \<or> last remaining = CHR ''/''"
        by (simp_all add: stripSlash_append [OF assms(1)])
      show ?thesis
      proof (rule that [OF ne seg])
        show "(if remaining = [] then CHR ''/'' # p else remaining @ p) = remaining @ p \<or>
              (remaining = [] \<and> p = ''/'' \<and>
               (if remaining = [] then CHR ''/'' # p else remaining @ p) = []) \<or>
              (remaining = [] \<and> p \<noteq> [] \<and> hd p \<noteq> CHR ''/'' \<and>
               (if remaining = [] then CHR ''/'' # p else remaining @ p) = CHR ''/'' # p)"
          using False hd by simp
        show "meets remaining p"
          using last hd by (auto simp: meets_def)
      qed
    next
      case notslash: False
      with assms(1,3) False have hd: "p = [] \<or> hd p = CHR ''/''"
        by (simp add: meets_def)
      note step = prefix_step [OF assms(1,2) notslash hd assms(4)]
      show ?thesis
      proof (rule that [OF ne step(3)])
        show "(if remaining = [] \<and> p = ''/'' then [] else remaining @ p) = remaining @ p \<or>
              (remaining = [] \<and> p = ''/'' \<and>
               (if remaining = [] \<and> p = ''/'' then [] else remaining @ p) = []) \<or>
              (remaining = [] \<and> p \<noteq> [] \<and> hd p \<noteq> CHR ''/'' \<and>
               (if remaining = [] \<and> p = ''/'' then [] else remaining @ p) = CHR ''/'' # p)"
          by simp
        show "meets remaining p"
          using step(4) hd False by (auto simp: meets_def)
      qed
    qed
  qed
qed

lemma addRoute_junction:
  assumes "R = remaining @ p \<or> (remaining = [] \<and> p = ''/'' \<and> R = []) \<or>
     (remaining = [] \<and> p \<noteq> [] \<and> hd p \<noteq> CHR ''/'' \<and> R = CHR ''/'' # p)"
  shows "addRoute c verb R handler mws = addRoute c verb (remaining @ p) handler mws"
  using assms addRoute_leading_slash [of "[]" c verb handler mws]
    addRoute_leading_slash [of p c verb handler mws]
  by auto

text \<open>
  Registering the prefix as \<open>Group\<close> does (empty verb, \<open>nil\<close> handler, no middleware) and
  then a route on the node it returns gives the tree and the node that registering the
  concatenated path gives, up to the entry of the empty verb at the group node.
\<close>

lemma group_compose:
  assumes verb: "verb \<noteq> []"
  shows "meets prefix p \<Longrightarrow>
         addRoute n [] prefix None [] = (t1, Inr ref) \<Longrightarrow>
         \<exists>g. nodeAt t1 ref = Some g \<and>
             forget_empty_verb (putAt t1 ref (fst (addRoute g verb p handler mws))) =
               forget_empty_verb (fst (addRoute n verb (prefix @ p) handler mws)) \<and>
             map_sum id (\<lambda>c. ref @ c) (snd (addRoute g verb p handler mws)) =
               snd (addRoute n verb (prefix @ p) handler mws)"
proof (induction n prefix arbitrary: t1 ref rule: addRoute_induct)
  case (terminal n prefix)
  have same: "addRoute m verb (prefix @ p) handler mws = addRoute m verb p handler mws"
    for m :: "('a, 'b) RouteNode"
  proof (cases "prefix = []")
    case True
    then show ?thesis by simp
  next
    case False
    with terminal.hyps have slash: "prefix = ''/''" by simp
    with terminal.prems(1) have "p = [] \<or> hd p \<noteq> CHR ''/''"
      by (auto simp: meets_def)
    from addRoute_leading_slash [OF this] show ?thesis
      by (simp add: slash)
  qed
  from terminal.prems(2) terminal.hyps have t1:
    "t1 = set_handlers ((handlers n)([] \<mapsto> None)) (set_middlewares (middlewares n @ []) n)"
    and ref: "ref = []"
    by (auto simp: addRoute_terminal split: option.splits)
  have "forget_empty_verb t1 = forget_empty_verb n"
    unfolding t1 by (cases n) simp
  then have "addRoute (forget_empty_verb t1) verb p handler mws =
             addRoute (forget_empty_verb n) verb p handler mws"
    by simp
  then have "forget_empty_verb (fst (addRoute t1 verb p handler mws)) =
             forget_empty_verb (fst (addRoute n verb p handler mws))"
    and "snd (addRoute t1 verb p handler mws) = snd (addRoute n verb p handler mws)"
    by (simp_all add: addRoute_forget [OF verb])
  then show ?case
    by (intro exI [of _ t1]) (simp add: ref same map_sum_ident)
next
  case (param n prefix segment remaining pname)
  note hyps = param.hyps
  from junction_step [OF hyps(1,2) param.prems(1) hyps(3)] obtain R where
    step: "prefix @ p \<noteq> []" "prefix @ p \<noteq> ''/''"
      "getPathSegment (stripSlash (prefix @ p)) = (segment, R)"
    and R: "R = remaining @ p \<or> (remaining = [] \<and> p = ''/'' \<and> R = []) \<or>
            (remaining = [] \<and> p \<noteq> [] \<and> hd p \<noteq> CHR ''/'' \<and> R = CHR ''/'' # p)"
    and meets: "meets remaining p"
    by blast
  let ?c = "case param n of None \<Rightarrow> NewRouteNode segment RouteTypeParam pname | Some c \<Rightarrow> c"
  obtain c1 res1 where rec: "addRoute ?c [] remaining None [] = (c1, res1)"
    by (cases "addRoute ?c [] remaining None []")
  with param.prems(2) obtain ref' where t1: "t1 = set_param (Some c1) n"
    and res1: "res1 = Inr ref'" and ref: "ref = ParamChild # ref'"
    by (auto simp: addRoute_param [OF hyps] map_sum_id_Inr)
  from param.IH [OF meets rec [unfolded res1]] obtain g where g: "nodeAt c1 ref' = Some g"
    and tree: "forget_empty_verb (putAt c1 ref' (fst (addRoute g verb p handler mws))) =
               forget_empty_verb (fst (addRoute ?c verb (remaining @ p) handler mws))"
    and res: "map_sum id (\<lambda>c. ref' @ c) (snd (addRoute g verb p handler mws)) =
              snd (addRoute ?c verb (remaining @ p) handler mws)"
    by blast
  have direct: "addRoute n verb (prefix @ p) handler mws =
     (case addRoute ?c verb (remaining @ p) handler mws of
        (child, res) \<Rightarrow> (set_param (Some child) n, map_sum id (Cons ParamChild) res))"
    by (simp only: addRoute_param [OF step hyps(4)] addRoute_junction [OF R])
  show ?case
    by (intro exI [of _ g])
       (simp add: t1 ref g direct split_beta forget_set tree res [symmetric] sum.map_comp comp_def)
next
  case (wildcard n prefix segment remaining pname)
  note hyps = wildcard.hyps
  from junction_step [OF hyps(1,2) wildcard.prems(1) hyps(3)] obtain R where
    step: "prefix @ p \<noteq> []" "prefix @ p \<noteq> ''/''"
      "getPathSegment (stripSlash (prefix @ p)) = (segment, R)"
    and R: "R = remaining @ p \<or> (remaining = [] \<and> p = ''/'' \<and> R = []) \<or>
            (remaining = [] \<and> p \<noteq> [] \<and> hd p \<noteq> CHR ''/'' \<and> R = CHR ''/'' # p)"
    and meets: "meets remaining p"
    by blast
  let ?c = "case wildcard n of None \<Rightarrow> NewRouteNode segment RouteTypeWildcard pname | Some c \<Rightarrow> c"
  obtain c1 res1 where rec: "addRoute ?c [] remaining None [] = (c1, res1)"
    by (cases "addRoute ?c [] remaining None []")
  with wildcard.prems(2) obtain ref' where t1: "t1 = set_wildcard (Some c1) n"
    and res1: "res1 = Inr ref'" and ref: "ref = WildcardChild # ref'"
    by (auto simp: addRoute_wildcard [OF hyps] map_sum_id_Inr)
  from wildcard.IH [OF meets rec [unfolded res1]] obtain g where g: "nodeAt c1 ref' = Some g"
    and tree: "forget_empty_verb (putAt c1 ref' (fst (addRoute g verb p handler mws))) =
               forget_empty_verb (fst (addRoute ?c verb (remaining @ p) handler mws))"
    and res: "map_sum id (\<lambda>c. ref' @ c) (snd (addRoute g verb p handler mws)) =
              snd (addRoute ?c verb (remaining @ p) handler mws)"
    by blast
  have direct: "addRoute n verb (prefix @ p) handler mws =
     (case addRoute ?c verb (remaining @ p) handler mws of
        (child, res) \<Rightarrow> (set_wildcard (Some child) n, map_sum id (Cons WildcardChild) res))"
    by (simp only: addRoute_wildcard [OF step hyps(4)] addRoute_junction [OF R])
  show ?case
    by (intro exI [of _ g])
       (simp add: t1 ref g direct split_beta forget_set tree res [symmetric] sum.map_comp comp_def)
next
  case (static_old n prefix segment remaining i)
  note hyps = static_old.hyps
  from junction_step [OF hyps(1,2) static_old.prems(1) hyps(3)] obtain R where
    step: "prefix @ p \<noteq> []" "prefix @ p \<noteq> ''/''"
      "getPathSegment (stripSlash (prefix @ p)) = (segment, R)"
    and R: "R = remaining @ p \<or> (remaining = [] \<and> p = ''/'' \<and> R = []) \<or>
            (remaining = [] \<and> p \<noteq> [] \<and> hd p \<noteq> CHR ''/'' \<and> R = CHR ''/'' # p)"
    and meets: "meets remaining p"
    by blast
  let ?c = "static n ! i"
  have i: "i < length (static n)"
    using staticIndex_Some [OF hyps(5)] by simp
  obtain c1 res1 where rec: "addRoute ?c [] remaining None [] = (c1, res1)"
    by (cases "addRoute ?c [] remaining None []")
  with static_old.prems(2) obtain ref' where t1: "t1 = set_static ((static n)[i := c1]) n"
    and res1: "res1 = Inr ref'" and ref: "ref = StaticChild i # ref'"
    by (auto simp: addRoute_static_old [OF hyps] map_sum_id_Inr)
  from static_old.IH [OF meets rec [unfolded res1]] obtain g where g: "nodeAt c1 ref' = Some g"
    and tree: "forget_empty_verb (putAt c1 ref' (fst (addRoute g verb p handler mws))) =
               forget_empty_verb (fst (addRoute ?c verb (remaining @ p) handler mws))"
    and res: "map_sum id (\<lambda>c. ref' @ c) (snd (addRoute g verb p handler mws)) =
              snd (addRoute ?c verb (remaining @ p) handler mws)"
    by blast
  have direct: "addRoute n verb (prefix @ p) handler mws =
     (case addRoute ?c verb (remaining @ p) handler mws of
        (child, res) \<Rightarrow>
          (set_static ((static n)[i := child]) n, map_sum id (Cons (StaticChild i)) res))"
    by (simp only: addRoute_static_old [OF step hyps(4,5)] addRoute_junction [OF R])
  show ?case
    by (intro exI [of _ g])
       (simp add: t1 ref g i direct split_beta forget_set map_update tree res [symmetric]
          sum.map_comp comp_def)
next
  case (static_new n prefix segment remaining)
  note hyps = static_new.hyps
  from junction_step [OF hyps(1,2) static_new.prems(1) hyps(3)] obtain R where
    step: "prefix @ p \<noteq> []" "prefix @ p \<noteq> ''/''"
      "getPathSegment (stripSlash (prefix @ p)) = (segment, R)"
    and R: "R = remaining @ p \<or> (remaining = [] \<and> p = ''/'' \<and> R = []) \<or>
            (remaining = [] \<and> p \<noteq> [] \<and> hd p \<noteq> CHR ''/'' \<and> R = CHR ''/'' # p)"
    and meets: "meets remaining p"
    by blast
  let ?c = "NewRouteNode segment RouteTypeStatic [] :: ('a, 'b) RouteNode"
  obtain c1 res1 where rec: "addRoute ?c [] remaining None [] = (c1, res1)"
    by (cases "addRoute ?c [] remaining None []")
  with static_new.prems(2) obtain ref' where t1: "t1 = set_static (static n @ [c1]) n"
    and res1: "res1 = Inr ref'" and ref: "ref = StaticChild (length (static n)) # ref'"
    by (auto simp: addRoute_static_new [OF hyps] map_sum_id_Inr)
  from static_new.IH [OF meets rec [unfolded res1]] obtain g where g: "nodeAt c1 ref' = Some g"
    and tree: "forget_empty_verb (putAt c1 ref' (fst (addRoute g verb p handler mws))) =
               forget_empty_verb (fst (addRoute ?c verb (remaining @ p) handler mws))"
    and res: "map_sum id (\<lambda>c. ref' @ c) (snd (addRoute g verb p handler mws)) =
              snd (addRoute ?c verb (remaining @ p) handler mws)"
    by blast
  have direct: "addRoute n verb (prefix @ p) handler mws =
     (case addRoute ?c verb (remaining @ p) handler mws of
        (child, res) \<Rightarrow>
          (set_static (static n @ [child]) n,
           map_sum id (Cons (StaticChild (length (static n)))) res))"
    by (simp only: addRoute_static_new [OF step hyps(4,5)] addRoute_junction [OF R])
  show ?case
    by (intro exI [of _ g])
       (simp add: t1 ref g direct split_beta forget_set tree res [symmetric] sum.map_comp comp_def)
qed

lemma Route_addRoute:
  "Route n verb pth handler mws =
     (fst (addRoute n verb pth handler mws),
      map_sum (NewRouteError verb pth) id (snd (addRoute n verb pth handler mws)))"
  by (simp add: Route_def split: prod.splits sum.splits)

lemma Err_map_sum: "map_sum Err id (map_sum (NewRouteError verb pth) id x) = x"
  by (cases x) auto

subsection \<open>The classifier as a parameter\<close>

lemma addRouteWith_source:
  "addRouteWith getRouteTypeFromSegment n verb pth handler mws = addRoute n verb pth handler mws"
proof (induction n pth rule: addRoute_induct)
  case (terminal n pth)
  then show ?case
    by (subst addRouteWith.simps, subst addRoute.simps) simp
next
  case (param n pth segment remaining pname)
  then show ?case
    by (subst addRouteWith.simps, subst addRoute.simps) (simp split: option.splits)
next
  case (wildcard n pth segment remaining pname)
  then show ?case
    by (subst addRouteWith.simps, subst addRoute.simps) (simp split: option.splits)
next
  case (static_old n pth segment remaining i)
  then show ?case
    by (subst addRouteWith.simps, subst addRoute.simps) simp
next
  case (static_new n pth segment remaining)
  then show ?case
    by (subst addRouteWith.simps, subst addRoute.simps) (simp add: nth_append)
qed

section \<open>The claims\<close>

text \<open>
  Claim C1 fails on the code. \<open>find\<close> takes its snapshot with \<open>maps.Copy(route.PathParams,
  originalPathParams)\<close>, which copies the empty snapshot into the live mapping, and after
  the failed attempt it makes the empty snapshot the mapping of the route. With
  \<open>/{org}/{id}/x\<close> and \<open>/{org}/*rest\<close> registered, the lookup of \<open>/acme/1/y\<close> binds \<open>org\<close>,
  fails below the parameter child \<open>{id}\<close> and goes on to the wildcard child with an empty
  mapping: the capture \<open>org = acme\<close> of the ancestor is lost, where the mapping before the
  parameter attempt was \<open>org = acme\<close> alone.
\<close>

theorem failed_parameter_attempt_drops_captures:
  "Find org_tree ''GET'' ''/acme/1/x'' =
     Inr \<lparr>Method = ''GET'', Path = ''/acme/1/x'', Handler = Some ''deep'', Middlewares = [],
          PathParams = [''org'' \<mapsto> ''acme'', ''id'' \<mapsto> ''1'']\<rparr> \<and>
   find_node (the (param org_tree)) [org_tree]
     \<lparr>Method = ''GET'', Path = ''/acme/1/y'', Handler = None, Middlewares = [],
      PathParams = [''org'' \<mapsto> ''acme'']\<rparr> ''GET'' ''/1/y'' =
     (\<lparr>Method = ''GET'', Path = ''/acme/1/y'', Handler = Some ''wild'', Middlewares = [],
       PathParams = [''rest'' \<mapsto> ''1/y'']\<rparr>, None) \<and>
   Find org_tree ''GET'' ''/acme/1/y'' =
     Inr \<lparr>Method = ''GET'', Path = ''/acme/1/y'', Handler = Some ''wild'', Middlewares = [],
          PathParams = [''rest'' \<mapsto> ''1/y'']\<rparr>"
  by (simp add: org_tree_def eval_defs)

text \<open>
  Claim C2. At a node where the path is not consumed, a static child whose text is the
  segment is taken first and decides the result; without one, a parameter child whose
  attempt succeeds decides it; without a parameter child, or after its attempt has
  failed, a wildcard child is tried with the rest of the path bound to its name, and with
  no child at all the lookup fails. For the example, let \<open>/users/admin\<close>, \<open>/users/:id\<close>
  and \<open>/users/*rest\<close> be registered under \<open>GET\<close> with a classifier of segments that
  takes \<open>users\<close> and \<open>admin\<close> for static, \<open>:id\<close> for a parameter named \<open>id\<close> and
  \<open>*rest\<close> for a wildcard named \<open>rest\<close>, as the classifier of package
  \<open>internal/routes\<close> does by its tests: the three lookups return the static handler with
  no parameter, the parameter handler with \<open>id = 42\<close>, and the wildcard handler with
  \<open>rest = a/b/c\<close>. The classifier of the engine writes the parameter \<open>{id}\<close>; the same
  holds with it for \<open>/users/{id}\<close>.
\<close>

theorem child_priority_order:
  "(pth \<noteq> [] \<and> pth \<noteq> ''/'' \<and> getPathSegment (stripSlash pth) = (segment, remaining) \<longrightarrow>
      (\<forall>child. staticMatch segment (static n) = Some child \<longrightarrow>
         find_node n parents route verb pth = find_node child (n # parents) route verb remaining) \<and>
      (\<forall>p r. staticMatch segment (static n) = None \<and> param n = Some p \<and>
         find_node p (n # parents)
           (route\<lparr>PathParams := (PathParams route)(paramName p \<mapsto> segment)\<rparr>) verb remaining =
           (r, None) \<longrightarrow>
         find_node n parents route verb pth = (r, None)) \<and>
      (\<forall>w. staticMatch segment (static n) = None \<and> param n = None \<and> wildcard n = Some w \<longrightarrow>
         find_node n parents route verb pth =
           find_node w (n # parents)
             (route\<lparr>PathParams := (PathParams route)(paramName w \<mapsto> segment @ remaining)\<rparr>)
             verb []) \<and>
      (\<forall>p w. staticMatch segment (static n) = None \<and> param n = Some p \<and>
         snd (find_node p (n # parents)
                (route\<lparr>PathParams := (PathParams route)(paramName p \<mapsto> segment)\<rparr>)
                verb remaining) \<noteq> None \<and>
         wildcard n = Some w \<longrightarrow>
         (\<exists>r. find_node n parents route verb pth = find_node w (n # parents) r verb [] \<and>
              PathParams r (paramName w) = Some (segment @ remaining))) \<and>
      (staticMatch segment (static n) = None \<and> param n = None \<and> wildcard n = None \<longrightarrow>
         find_node n parents route verb pth = (route, Some ErrRouteNotFound))) \<and>
   Find priority_tree ''GET'' ''/users/admin'' =
     Inr \<lparr>Method = ''GET'', Path = ''/users/admin'', Handler = Some ''static'',
          Middlewares = [], PathParams = Map.empty\<rparr> \<and>
   Find priority_tree ''GET'' ''/users/42'' =
     Inr \<lparr>Method = ''GET'', Path = ''/users/42'', Handler = Some ''param'',
          Middlewares = [], PathParams = [''id'' \<mapsto> ''42'']\<rparr> \<and>
   Find priority_tree ''GET'' ''/users/a/b/c'' =
     Inr \<lparr>Method = ''GET'', Path = ''/users/a/b/c'', Handler = Some ''wildcard'',
          Middlewares = [], PathParams = [''rest'' \<mapsto> ''a/b/c'']\<rparr> \<and>
   (classify ''users'' = (RouteTypeStatic, []) \<and> classify ''admin'' = (RouteTypeStatic, []) \<and>
    classify '':id'' = (RouteTypeParam, ''id'') \<and>
    classify ''*rest'' = (RouteTypeWildcard, ''rest'') \<longrightarrow>
    Find (colon_tree classify) ''GET'' ''/users/admin'' =
      Inr \<lparr>Method = ''GET'', Path = ''/users/admin'', Handler = Some ''static'',
           Middlewares = [], PathParams = Map.empty\<rparr> \<and>
    Find (colon_tree classify) ''GET'' ''/users/42'' =
      Inr \<lparr>Method = ''GET'', Path = ''/users/42'', Handler = Some ''param'',
           Middlewares = [], PathParams = [''id'' \<mapsto> ''42'']\<rparr> \<and>
    Find (colon_tree classify) ''GET'' ''/users/a/b/c'' =
      Inr \<lparr>Method = ''GET'', Path = ''/users/a/b/c'', Handler = Some ''wildcard'',
           Middlewares = [], PathParams = [''rest'' \<mapsto> ''a/b/c'']\<rparr>)"
proof -
  have general: "(\<forall>child. staticMatch segment (static n) = Some child \<longrightarrow>
         find_node n parents route verb pth = find_node child (n # parents) route verb remaining) \<and>
      (\<forall>p r. staticMatch segment (static n) = None \<and> param n = Some p \<and>
         find_node p (n # parents)
           (route\<lparr>PathParams := (PathParams route)(paramName p \<mapsto> segment)\<rparr>) verb remaining =
           (r, None) \<longrightarrow>
         find_node n parents route verb pth = (r, None)) \<and>
      (\<forall>w. staticMatch segment (static n) = None \<and> param n = None \<and> wildcard n = Some w \<longrightarrow>
         find_node n parents route verb pth =
           find_node w (n # parents)
             (route\<lparr>PathParams := (PathParams route)(paramName w \<mapsto> segment @ remaining)\<rparr>)
             verb []) \<and>
      (\<forall>p w. staticMatch segment (static n) = None \<and> param n = Some p \<and>
         snd (find_node p (n # parents)
                (route\<lparr>PathParams := (PathParams route)(paramName p \<mapsto> segment)\<rparr>)
                verb remaining) \<noteq> None \<and>
         wildcard n = Some w \<longrightarrow>
         (\<exists>r. find_node n parents route verb pth = find_node w (n # parents) r verb [] \<and>
              PathParams r (paramName w) = Some (segment @ remaining))) \<and>
      (staticMatch segment (static n) = None \<and> param n = None \<and> wildcard n = None \<longrightarrow>
         find_node n parents route verb pth = (route, Some ErrRouteNotFound))"
    if hyps: "pth \<noteq> []" "pth \<noteq> ''/''" "getPathSegment (stripSlash pth) = (segment, remaining)"
    using find_node_reaches_wildcard [OF hyps, of n parents route verb]
    by (auto simp: find_node_static [OF hyps] find_node_param_ok [OF hyps]
        find_node_no_param [OF hyps])
  have admin: "Find priority_tree ''GET'' ''/users/admin'' =
     Inr \<lparr>Method = ''GET'', Path = ''/users/admin'', Handler = Some ''static'',
          Middlewares = [], PathParams = Map.empty\<rparr>"
    by (simp add: priority_tree_def eval_defs)
  have num: "Find priority_tree ''GET'' ''/users/42'' =
     Inr \<lparr>Method = ''GET'', Path = ''/users/42'', Handler = Some ''param'',
          Middlewares = [], PathParams = [''id'' \<mapsto> ''42'']\<rparr>"
    by (simp add: priority_tree_def eval_defs)
  have deep: "Find priority_tree ''GET'' ''/users/a/b/c'' =
     Inr \<lparr>Method = ''GET'', Path = ''/users/a/b/c'', Handler = Some ''wildcard'',
          Middlewares = [], PathParams = [''rest'' \<mapsto> ''a/b/c'']\<rparr>"
    by (simp add: priority_tree_def eval_defs)
  have colon: "Find (colon_tree classify) ''GET'' ''/users/admin'' =
      Inr \<lparr>Method = ''GET'', Path = ''/users/admin'', Handler = Some ''static'',
           Middlewares = [], PathParams = Map.empty\<rparr> \<and>
    Find (colon_tree classify) ''GET'' ''/users/42'' =
      Inr \<lparr>Method = ''GET'', Path = ''/users/42'', Handler = Some ''param'',
           Middlewares = [], PathParams = [''id'' \<mapsto> ''42'']\<rparr> \<and>
    Find (colon_tree classify) ''GET'' ''/users/a/b/c'' =
      Inr \<lparr>Method = ''GET'', Path = ''/users/a/b/c'', Handler = Some ''wildcard'',
           Middlewares = [], PathParams = [''rest'' \<mapsto> ''a/b/c'']\<rparr>"
    if "classify ''users'' = (RouteTypeStatic, [])" "classify ''admin'' = (RouteTypeStatic, [])"
      "classify '':id'' = (RouteTypeParam, ''id'')"
      "classify ''*rest'' = (RouteTypeWildcard, ''rest'')"
    using that by (simp add: colon_tree_def addRouteWith.simps eval_defs)
  from general admin num deep colon show ?thesis
    by blast
qed

theorem child_priority_order_witness:
  "staticMatch ''admin'' (static (static priority_tree ! 0)) =
     Some (RouteNode ''admin'' RouteTypeStatic [] [''GET'' \<mapsto> Some ''static''] [] [] None None) \<and>
   find_node (static priority_tree ! 0) [priority_tree]
     \<lparr>Method = ''GET'', Path = ''/users/admin'', Handler = None, Middlewares = [],
      PathParams = Map.empty\<rparr> ''GET'' ''/admin'' =
     (\<lparr>Method = ''GET'', Path = ''/users/admin'', Handler = Some ''static'', Middlewares = [],
       PathParams = Map.empty\<rparr>, None) \<and>
   staticMatch ''42'' (static (static priority_tree ! 0)) = None \<and>
   param (static priority_tree ! 0) =
     Some (RouteNode ''{id}'' RouteTypeParam ''id'' [''GET'' \<mapsto> Some ''param''] [] [] None None) \<and>
   wildcard (static priority_tree ! 0) =
     Some (RouteNode ''*rest'' RouteTypeWildcard ''rest'' [''GET'' \<mapsto> Some ''wildcard''] [] [] None None) \<and>
   find_node (static priority_tree ! 0) [priority_tree]
     \<lparr>Method = ''GET'', Path = ''/users/42'', Handler = None, Middlewares = [],
      PathParams = Map.empty\<rparr> ''GET'' ''/42'' =
     (\<lparr>Method = ''GET'', Path = ''/users/42'', Handler = Some ''param'', Middlewares = [],
       PathParams = [''id'' \<mapsto> ''42'']\<rparr>, None) \<and>
   staticMatch ''a'' (static (static priority_tree ! 0)) = None \<and>
   snd (find_node
          (RouteNode ''{id}'' RouteTypeParam ''id'' [''GET'' \<mapsto> Some ''param''] [] [] None None)
          [static priority_tree ! 0, priority_tree]
          \<lparr>Method = ''GET'', Path = ''/users/a/b/c'', Handler = None, Middlewares = [],
           PathParams = [''id'' \<mapsto> ''a'']\<rparr> ''GET'' ''/b/c'') = Some ErrRouteNotFound \<and>
   (\<exists>r. find_node (static priority_tree ! 0) [priority_tree]
          \<lparr>Method = ''GET'', Path = ''/users/a/b/c'', Handler = None, Middlewares = [],
           PathParams = Map.empty\<rparr> ''GET'' ''/a/b/c'' =
        find_node
          (RouteNode ''*rest'' RouteTypeWildcard ''rest'' [''GET'' \<mapsto> Some ''wildcard''] [] [] None None)
          [static priority_tree ! 0, priority_tree] r ''GET'' [] \<and>
        PathParams r ''rest'' = Some ''a/b/c'') \<and>
   colonSegmentType ''users'' = (RouteTypeStatic, []) \<and>
   colonSegmentType ''admin'' = (RouteTypeStatic, []) \<and>
   colonSegmentType '':id'' = (RouteTypeParam, ''id'') \<and>
   colonSegmentType ''*rest'' = (RouteTypeWildcard, ''rest'') \<and>
   Find (colon_tree colonSegmentType) ''GET'' ''/users/admin'' =
     Inr \<lparr>Method = ''GET'', Path = ''/users/admin'', Handler = Some ''static'',
          Middlewares = [], PathParams = Map.empty\<rparr> \<and>
   Find (colon_tree colonSegmentType) ''GET'' ''/users/42'' =
     Inr \<lparr>Method = ''GET'', Path = ''/users/42'', Handler = Some ''param'',
          Middlewares = [], PathParams = [''id'' \<mapsto> ''42'']\<rparr> \<and>
   Find (colon_tree colonSegmentType) ''GET'' ''/users/a/b/c'' =
     Inr \<lparr>Method = ''GET'', Path = ''/users/a/b/c'', Handler = Some ''wildcard'',
          Middlewares = [], PathParams = [''rest'' \<mapsto> ''a/b/c'']\<rparr>"
proof -
  let ?n = "static priority_tree ! 0"
  let ?a = "RouteNode ''admin'' RouteTypeStatic [] [''GET'' \<mapsto> Some ''static''] [] [] None None
              :: (string, string) RouteNode"
  let ?p = "RouteNode ''{id}'' RouteTypeParam ''id'' [''GET'' \<mapsto> Some ''param''] [] [] None None
              :: (string, string) RouteNode"
  let ?w = "RouteNode ''*rest'' RouteTypeWildcard ''rest'' [''GET'' \<mapsto> Some ''wildcard''] [] [] None None
              :: (string, string) RouteNode"
  let ?route = "\<lambda>pth. \<lparr>Method = ''GET'', Path = pth, Handler = None, Middlewares = [],
      PathParams = Map.empty\<rparr> :: (string, string) Route"
  have seg1: "getPathSegment (stripSlash ''/admin'') = (''admin'', [])"
    and seg2: "getPathSegment (stripSlash ''/42'') = (''42'', [])"
    and seg3: "getPathSegment (stripSlash ''/a/b/c'') = (''a'', ''/b/c'')"
    by (simp_all add: eval_defs)
  have static: "staticMatch ''admin'' (static ?n) = Some ?a"
    and none2: "staticMatch ''42'' (static ?n) = None"
    and none3: "staticMatch ''a'' (static ?n) = None"
    and par: "param ?n = Some ?p"
    and wild: "wildcard ?n = Some ?w"
    by (simp_all add: priority_tree_def eval_defs)
  have at_static: "find_node ?a (?n # [priority_tree]) (?route ''/users/admin'') ''GET'' [] =
      (\<lparr>Method = ''GET'', Path = ''/users/admin'', Handler = Some ''static'', Middlewares = [],
        PathParams = Map.empty\<rparr>, None)"
    by (simp add: find_node_terminal priority_tree_def eval_defs)
  have attempt: "find_node ?p (?n # [priority_tree])
      ((?route ''/users/42'')\<lparr>PathParams := (PathParams (?route ''/users/42''))(paramName ?p \<mapsto> ''42'')\<rparr>)
      ''GET'' [] =
      (\<lparr>Method = ''GET'', Path = ''/users/42'', Handler = Some ''param'', Middlewares = [],
        PathParams = [''id'' \<mapsto> ''42'']\<rparr>, None)"
    by (simp add: find_node_terminal priority_tree_def eval_defs)
  have failed: "snd (find_node ?p (?n # [priority_tree])
      ((?route ''/users/a/b/c'')\<lparr>PathParams :=
         (PathParams (?route ''/users/a/b/c''))(paramName ?p \<mapsto> ''a'')\<rparr>)
      ''GET'' ''/b/c'') = Some ErrRouteNotFound"
    by (simp add: eval_defs)
  from child_priority_order [of "''/admin''" "''admin''" "[]" ?n "[priority_tree]"
      "?route ''/users/admin''" "''GET''"] seg1 static at_static
  have one: "find_node ?n [priority_tree] (?route ''/users/admin'') ''GET'' ''/admin'' =
      (\<lparr>Method = ''GET'', Path = ''/users/admin'', Handler = Some ''static'', Middlewares = [],
        PathParams = Map.empty\<rparr>, None)"
    by simp
  from child_priority_order [of "''/42''" "''42''" "[]" ?n "[priority_tree]"
      "?route ''/users/42''" "''GET''"] seg2 none2 par attempt
  have two: "find_node ?n [priority_tree] (?route ''/users/42'') ''GET'' ''/42'' =
      (\<lparr>Method = ''GET'', Path = ''/users/42'', Handler = Some ''param'', Middlewares = [],
        PathParams = [''id'' \<mapsto> ''42'']\<rparr>, None)"
    by blast
  from child_priority_order [of "''/a/b/c''" "''a''" "''/b/c''" ?n "[priority_tree]"
      "?route ''/users/a/b/c''" "''GET''"] seg3 none3 par wild failed
  have three: "\<exists>r. find_node ?n [priority_tree] (?route ''/users/a/b/c'') ''GET'' ''/a/b/c'' =
        find_node ?w [?n, priority_tree] r ''GET'' [] \<and> PathParams r ''rest'' = Some ''a/b/c''"
    by simp
  from failed have failed': "snd (find_node ?p [?n, priority_tree]
          \<lparr>Method = ''GET'', Path = ''/users/a/b/c'', Handler = None, Middlewares = [],
           PathParams = [''id'' \<mapsto> ''a'']\<rparr> ''GET'' ''/b/c'') = Some ErrRouteNotFound"
    by simp
  have cls: "colonSegmentType ''users'' = (RouteTypeStatic, [])"
    "colonSegmentType ''admin'' = (RouteTypeStatic, [])"
    "colonSegmentType '':id'' = (RouteTypeParam, ''id'')"
    "colonSegmentType ''*rest'' = (RouteTypeWildcard, ''rest'')"
    by (simp_all add: colonSegmentType_def)
  from child_priority_order [where classify = colonSegmentType] cls
  have colon: "Find (colon_tree colonSegmentType) ''GET'' ''/users/admin'' =
     Inr \<lparr>Method = ''GET'', Path = ''/users/admin'', Handler = Some ''static'',
          Middlewares = [], PathParams = Map.empty\<rparr> \<and>
   Find (colon_tree colonSegmentType) ''GET'' ''/users/42'' =
     Inr \<lparr>Method = ''GET'', Path = ''/users/42'', Handler = Some ''param'',
          Middlewares = [], PathParams = [''id'' \<mapsto> ''42'']\<rparr> \<and>
   Find (colon_tree colonSegmentType) ''GET'' ''/users/a/b/c'' =
     Inr \<lparr>Method = ''GET'', Path = ''/users/a/b/c'', Handler = Some ''wildcard'',
          Middlewares = [], PathParams = [''rest'' \<mapsto> ''a/b/c'']\<rparr>"
    by blast
  from static one none2 par wild two none3 failed' three cls colon show ?thesis
    by simp
qed

text \<open>
  Claim C3, as amended. Resolution reaches the wildcard child \<open>w\<close> of a node when the
  path is not consumed, no static child has the current segment as its text, and the node
  has no parameter child or the attempt through it has failed. Then the value bound to
  the declared name of \<open>w\<close> is the current segment followed by the remainder that
  \<open>getPathSegment\<close> returns, and the result is decided by the verb bindings of \<open>w\<close>
  alone: without a handler for the verb the lookup fails with \<open>ErrRouteNotFound\<close>, with
  one it succeeds with that handler and the middleware of the ancestors, the node and
  \<open>w\<close>; no child of \<open>w\<close> is looked at. The bound value is the path as it stands at the
  node (after the leading slash), slashes included, with one exception: when the path
  ends with a slash directly after the current segment, that slash is not part of the
  value.
\<close>

theorem wildcard_captures_remainder:
  assumes "pth \<noteq> []" and "pth \<noteq> ''/''"
    and "getPathSegment (stripSlash pth) = (segment, remaining)"
    and "staticMatch segment (static n) = None"
    and "param n = None \<or>
         (\<exists>p. param n = Some p \<and>
              snd (find_node p (n # parents)
                     (route\<lparr>PathParams := (PathParams route)(paramName p \<mapsto> segment)\<rparr>)
                     verb remaining) \<noteq> None)"
    and "wildcard n = Some w"
  shows "(case handlers w verb of
            None \<Rightarrow> snd (find_node n parents route verb pth) = Some ErrRouteNotFound
          | Some handler \<Rightarrow>
              snd (find_node n parents route verb pth) = None \<and>
              Handler (fst (find_node n parents route verb pth)) = handler \<and>
              PathParams (fst (find_node n parents route verb pth)) (paramName w) =
                Some (segment @ remaining) \<and>
              Middlewares (fst (find_node n parents route verb pth)) =
                Middlewares route @ concat (map middlewares (rev parents)) @
                middlewares n @ middlewares w) \<and>
         CHR ''/'' \<notin> set segment \<and>
         (stripSlash pth = segment @ remaining \<or>
          (remaining = [] \<and> stripSlash pth = segment @ ''/''))"
proof -
  from find_node_reaches_wildcard [OF assms]
  obtain r where r: "find_node n parents route verb pth = find_node w (n # parents) r verb []"
    "PathParams r (paramName w) = Some (segment @ remaining)" "Middlewares r = Middlewares route"
    by blast
  have "case handlers w verb of
            None \<Rightarrow> snd (find_node n parents route verb pth) = Some ErrRouteNotFound
          | Some handler \<Rightarrow>
              snd (find_node n parents route verb pth) = None \<and>
              Handler (fst (find_node n parents route verb pth)) = handler \<and>
              PathParams (fst (find_node n parents route verb pth)) (paramName w) =
                Some (segment @ remaining) \<and>
              Middlewares (fst (find_node n parents route verb pth)) =
                Middlewares route @ concat (map middlewares (rev parents)) @
                middlewares n @ middlewares w"
    unfolding r(1) using r(2,3)
    by (simp add: find_node_terminal collectMiddlewares_eq split: option.splits)
  with getPathSegment_verbatim [OF assms(3)] getPathSegment_segment [OF assms(3)] show ?thesis
    by simp
qed

theorem wildcard_captures_remainder_witness:
  "staticMatch ''a'' (static (static files_tree ! 0)) = None \<and>
   param (static files_tree ! 0) = None \<and>
   wildcard (static files_tree ! 0) \<noteq> None \<and>
   paramName (the (wildcard (static files_tree ! 0))) = ''path'' \<and>
   PathParams (fst (find_node (static files_tree ! 0) [files_tree]
      \<lparr>Method = ''GET'', Path = ''/files/a/b/c.txt'', Handler = None, Middlewares = [],
       PathParams = Map.empty\<rparr> ''GET'' ''/a/b/c.txt'')) ''path'' = Some ''a/b/c.txt'' \<and>
   Find files_tree ''GET'' ''/files/a/b/c.txt'' =
     Inr \<lparr>Method = ''GET'', Path = ''/files/a/b/c.txt'', Handler = Some ''files'',
          Middlewares = [], PathParams = [''path'' \<mapsto> ''a/b/c.txt'']\<rparr> \<and>
   Find files_tree ''POST'' ''/files/a/b/c.txt'' =
     Inl (NewRouteError ''POST'' ''/files/a/b/c.txt'' ErrRouteNotFound) \<and>
   snd (find_node (the (param (static priority_tree ! 0))) [static priority_tree ! 0, priority_tree]
          \<lparr>Method = ''GET'', Path = ''/users/a/b/c'', Handler = None, Middlewares = [],
           PathParams = [''id'' \<mapsto> ''a'']\<rparr> ''GET'' ''/b/c'') = Some ErrRouteNotFound \<and>
   PathParams (fst (find_node (static priority_tree ! 0) [priority_tree]
      \<lparr>Method = ''GET'', Path = ''/users/a/b/c'', Handler = None, Middlewares = [],
       PathParams = Map.empty\<rparr> ''GET'' ''/a/b/c'')) ''rest'' = Some ''a/b/c''"
proof -
  let ?n = "static files_tree ! 0"
  let ?u = "static priority_tree ! 0"
  let ?p = "RouteNode ''{id}'' RouteTypeParam ''id'' [''GET'' \<mapsto> Some ''param''] [] [] None None
              :: (string, string) RouteNode"
  let ?w = "RouteNode ''*rest'' RouteTypeWildcard ''rest'' [''GET'' \<mapsto> Some ''wildcard''] [] [] None None
              :: (string, string) RouteNode"
  let ?route = "\<lparr>Method = ''GET'', Path = ''/users/a/b/c'', Handler = None, Middlewares = [],
       PathParams = Map.empty\<rparr> :: (string, string) Route"
  have seg': "getPathSegment (stripSlash ''/a/b/c'') = (''a'', ''/b/c'')"
    by (simp add: eval_defs)
  have none': "staticMatch ''a'' (static ?u) = None" and par': "param ?u = Some ?p"
    and wild': "wildcard ?u = Some ?w"
    by (simp_all add: priority_tree_def eval_defs)
  have failed: "snd (find_node ?p (?u # [priority_tree])
      (?route\<lparr>PathParams := (PathParams ?route)(paramName ?p \<mapsto> ''a'')\<rparr>) ''GET'' ''/b/c'') =
      Some ErrRouteNotFound"
    by (simp add: eval_defs)
  then have reached: "param ?u = None \<or>
      (\<exists>p. param ?u = Some p \<and>
         snd (find_node p (?u # [priority_tree])
                (?route\<lparr>PathParams := (PathParams ?route)(paramName p \<mapsto> ''a'')\<rparr>)
                ''GET'' ''/b/c'') \<noteq> None)"
    using par' by simp
  from wildcard_captures_remainder [OF _ _ seg' none' reached wild']
  have after: "PathParams (fst (find_node ?u [priority_tree] ?route ''GET'' ''/a/b/c'')) ''rest'' =
      Some ''a/b/c''"
    by simp
  from failed par' have failed': "snd (find_node (the (param ?u)) [?u, priority_tree]
          \<lparr>Method = ''GET'', Path = ''/users/a/b/c'', Handler = None, Middlewares = [],
           PathParams = [''id'' \<mapsto> ''a'']\<rparr> ''GET'' ''/b/c'') = Some ErrRouteNotFound"
    by simp
  have seg: "getPathSegment (stripSlash ''/a/b/c.txt'') = (''a'', ''/b/c.txt'')"
    by (simp add: eval_defs)
  have none: "staticMatch ''a'' (static ?n) = None"
    by (simp add: files_tree_def eval_defs)
  have par: "param ?n = None"
    by (simp add: files_tree_def eval_defs)
  have wild: "wildcard ?n = Some (RouteNode ''*path'' RouteTypeWildcard ''path''
                 [''GET'' \<mapsto> Some ''files''] [] [] None None)"
    by (simp add: files_tree_def eval_defs)
  have get: "Find files_tree ''GET'' ''/files/a/b/c.txt'' =
     Inr \<lparr>Method = ''GET'', Path = ''/files/a/b/c.txt'', Handler = Some ''files'',
          Middlewares = [], PathParams = [''path'' \<mapsto> ''a/b/c.txt'']\<rparr>"
    by (simp add: files_tree_def eval_defs)
  have post: "Find files_tree ''POST'' ''/files/a/b/c.txt'' =
     Inl (NewRouteError ''POST'' ''/files/a/b/c.txt'' ErrRouteNotFound)"
    by (simp add: files_tree_def eval_defs)
  from wildcard_captures_remainder [OF _ _ seg none _ wild, of "[files_tree]"
      "\<lparr>Method = ''GET'', Path = ''/files/a/b/c.txt'', Handler = None, Middlewares = [],
        PathParams = Map.empty\<rparr>" "''GET''"] par
  have "PathParams (fst (find_node ?n [files_tree]
      \<lparr>Method = ''GET'', Path = ''/files/a/b/c.txt'', Handler = None, Middlewares = [],
       PathParams = Map.empty\<rparr> ''GET'' ''/a/b/c.txt'')) ''path'' = Some ''a/b/c.txt''"
    by simp
  with none par wild get post failed' after show ?thesis
    by simp
qed

text \<open>
  Claim C3 as stated fails for a path that ends with a slash directly after the segment
  at which the wildcard child is reached: with \<open>/files/*path\<close> registered, the lookup of
  \<open>/files/a/\<close> binds \<open>a\<close>, not \<open>a/\<close>, to \<open>path\<close>, while \<open>/files/a/b/\<close> binds \<open>a/b/\<close> and
  \<open>/files/a//\<close> binds \<open>a//\<close>. \<open>getPathSegment\<close> returns the empty remainder when nothing
  follows the slash after the segment.
\<close>

theorem wildcard_captures_remainder_counterexample:
  "Find files_tree ''GET'' ''/files/a/'' =
     Inr \<lparr>Method = ''GET'', Path = ''/files/a/'', Handler = Some ''files'',
          Middlewares = [], PathParams = [''path'' \<mapsto> ''a'']\<rparr> \<and>
   Find files_tree ''GET'' ''/files/a/b/'' =
     Inr \<lparr>Method = ''GET'', Path = ''/files/a/b/'', Handler = Some ''files'',
          Middlewares = [], PathParams = [''path'' \<mapsto> ''a/b/'']\<rparr> \<and>
   Find files_tree ''GET'' ''/files/a//'' =
     Inr \<lparr>Method = ''GET'', Path = ''/files/a//'', Handler = Some ''files'',
          Middlewares = [], PathParams = [''path'' \<mapsto> ''a//'']\<rparr>"
  by (simp add: files_tree_def eval_defs)

text \<open>
  Claim C4. Once a registration of a verb and a path has succeeded, the handler is bound
  for the verb at the destination node, and a second registration of the same verb and
  path, with any handler and any middleware, returns \<open>ErrRouteAlreadyExists\<close> (wrapped by
  \<open>Route\<close> with the verb and the path) and the tree after the call is the tree before
  it: the first handler stays bound, no middleware is added and no handler entry is
  written. More generally a registration that returns an error, whatever the tree, the
  verb and the path, returns \<open>ErrRouteAlreadyExists\<close> and leaves the tree as it was.
\<close>

theorem duplicate_registration_rejected:
  assumes "Route n verb pth handler mws = (n1, Inr node)"
  shows "Route n1 verb pth handler' mws' =
           (n1, Inl (NewRouteError verb pth ErrRouteAlreadyExists)) \<and>
         (\<forall>m v q h ms m' e. Route m v q h ms = (m', Inl e) \<longrightarrow>
            m' = (m :: ('a, 'b) RouteNode) \<and> e = NewRouteError v q ErrRouteAlreadyExists)"
proof -
  obtain n' res where first: "addRoute n verb pth handler mws = (n', res)"
    by (cases "addRoute n verb pth handler mws")
  with assms have "n' = n1" "res = Inr node"
    by (auto simp: Route_def split: sum.splits)
  with first have "addRoute n verb pth handler mws = (n1, Inr node)"
    by simp
  then have "addRoute n1 verb pth handler' mws' = (n1, Inl ErrRouteAlreadyExists)"
    by (rule addRoute_twice)
  then have second: "Route n1 verb pth handler' mws' =
      (n1, Inl (NewRouteError verb pth ErrRouteAlreadyExists))"
    by (simp add: Route_def)
  have "m' = m \<and> e = NewRouteError v q ErrRouteAlreadyExists"
    if "Route m v q h ms = (m', Inl e)" for m m' :: "('a, 'b) RouteNode" and v q h ms e
  proof -
    obtain k r where add: "addRoute m v q h ms = (k, r)"
      by (cases "addRoute m v q h ms")
    with that obtain err where r: "r = Inl err" and k: "k = m'" and e: "e = NewRouteError v q err"
      by (cases r) (auto simp: Route_def)
    from addRoute_error_unchanged [OF add [unfolded r]] k e show ?thesis
      by simp
  qed
  with second show ?thesis
    by blast
qed

theorem duplicate_registration_rejected_witness:
  "Route fresh_root ''GET'' ''/users'' (Some ''first'') [''log''] = (users_tree, Inr [StaticChild 0]) \<and>
   Route users_tree ''GET'' ''/users'' (Some ''second'') [''auth''] =
     (users_tree, Inl (NewRouteError ''GET'' ''/users'' ErrRouteAlreadyExists)) \<and>
   Find users_tree ''GET'' ''/users'' =
     Inr \<lparr>Method = ''GET'', Path = ''/users'', Handler = Some ''first'',
          Middlewares = [''log''], PathParams = Map.empty\<rparr>"
proof -
  have first: "Route fresh_root ''GET'' ''/users'' (Some ''first'') [''log''] =
                 (users_tree, Inr [StaticChild 0])"
    by (simp add: users_tree_def eval_defs)
  have found: "Find users_tree ''GET'' ''/users'' =
     Inr \<lparr>Method = ''GET'', Path = ''/users'', Handler = Some ''first'',
          Middlewares = [''log''], PathParams = Map.empty\<rparr>"
    by (simp add: users_tree_def eval_defs)
  from first duplicate_registration_rejected [OF first, of "Some ''second''" "[''auth'']"] found
  show ?thesis by blast
qed




text \<open>
  Claim C6. For a path \<open>pth\<close> that does not begin with a slash, registering \<open>pth\<close> and
  registering \<open>/pth\<close> return the same tree and the same node (the error, if any, is the
  same one, wrapped with the path as it was given), and looking up \<open>pth\<close> and \<open>/pth\<close>
  return the same handler, middleware chain and parameter mapping, or fail with the same
  error.
\<close>

theorem leading_slash_optional:
  assumes "pth = [] \<or> hd pth \<noteq> CHR ''/''"
  shows "addRoute n verb (CHR ''/'' # pth) handler mws = addRoute n verb pth handler mws \<and>
         fst (Route n verb (CHR ''/'' # pth) handler mws) = fst (Route n verb pth handler mws) \<and>
         map_sum Err id (snd (Route n verb (CHR ''/'' # pth) handler mws)) =
           map_sum Err id (snd (Route n verb pth handler mws)) \<and>
         map_sum Err (\<lambda>r. (Handler r, Middlewares r, PathParams r)) (Find n verb (CHR ''/'' # pth)) =
           map_sum Err (\<lambda>r. (Handler r, Middlewares r, PathParams r)) (Find n verb pth)"
proof -
  note add = addRoute_leading_slash [OF assms, of n verb handler mws]
  have route: "fst (Route n verb (CHR ''/'' # pth) handler mws) = fst (Route n verb pth handler mws) \<and>
         map_sum Err id (snd (Route n verb (CHR ''/'' # pth) handler mws)) =
           map_sum Err id (snd (Route n verb pth handler mws))"
    by (simp add: Route_def add split: prod.splits sum.splits)
  let ?route = "\<lparr>Method = verb, Path = pth, Handler = None, Middlewares = [],
                  PathParams = Map.empty\<rparr> :: ('a, 'b) Route"
  have "find_node n [] (?route\<lparr>Path := CHR ''/'' # pth\<rparr>) verb (CHR ''/'' # pth) =
        (case find_node n [] ?route verb pth of (r, e) \<Rightarrow> (r\<lparr>Path := CHR ''/'' # pth\<rparr>, e))"
    by (simp only: find_node_leading_slash [OF assms] find_node_Path)
  then have "map_sum Err (\<lambda>r. (Handler r, Middlewares r, PathParams r)) (Find n verb (CHR ''/'' # pth)) =
           map_sum Err (\<lambda>r. (Handler r, Middlewares r, PathParams r)) (Find n verb pth)"
    by (simp add: Find_def split: prod.splits option.splits)
  with add route show ?thesis
    by simp
qed

theorem leading_slash_optional_witness:
  "Route fresh_root ''GET'' ''/users'' (Some ''first'') [''log''] = (users_tree, Inr [StaticChild 0]) \<and>
   Route fresh_root ''GET'' ''users'' (Some ''first'') [''log''] = (users_tree, Inr [StaticChild 0]) \<and>
   Find users_tree ''GET'' ''users'' =
     Inr \<lparr>Method = ''GET'', Path = ''users'', Handler = Some ''first'',
          Middlewares = [''log''], PathParams = Map.empty\<rparr> \<and>
   map_sum Err (\<lambda>r. (Handler r, Middlewares r, PathParams r)) (Find users_tree ''GET'' ''/users'') =
     Inr (Some ''first'', [''log''], Map.empty)"
proof -
  have slash: "Route fresh_root ''GET'' ''/users'' (Some ''first'') [''log''] =
                 (users_tree, Inr [StaticChild 0])"
    by (simp add: users_tree_def eval_defs)
  have plain: "Route fresh_root ''GET'' ''users'' (Some ''first'') [''log''] =
                 (users_tree, Inr [StaticChild 0])"
    by (simp add: users_tree_def eval_defs)
  have found: "Find users_tree ''GET'' ''users'' =
     Inr \<lparr>Method = ''GET'', Path = ''users'', Handler = Some ''first'',
          Middlewares = [''log''], PathParams = Map.empty\<rparr>"
    by (simp add: users_tree_def eval_defs)
  from leading_slash_optional [of "''users''" users_tree "''GET''"] found
  have "map_sum Err (\<lambda>r. (Handler r, Middlewares r, PathParams r)) (Find users_tree ''GET'' ''/users'') =
     Inr (Some ''first'', [''log''], Map.empty)"
    by simp
  with slash plain found show ?thesis
    by simp
qed

text \<open>
  Claim C7. In every tree built from a fresh root by registrations, every node has at
  most one child of the parameter kind, at most one child of the wildcard kind, and
  static children with pairwise distinct texts. The handlers of a node are a Go map and a
  map here, so a verb has at most one entry in it, and a registration never overwrites
  an entry: one whose destination (the node at which \<open>addRoute\<close> would bind the handler)
  already has an entry for the verb returns \<open>ErrRouteAlreadyExists\<close> and leaves the tree
  as it is, on the root and on a node obtained earlier; one that succeeds binds the verb
  at a destination that had no entry for it; and after any registration every node is
  where it was, with every entry of its handlers.
\<close>

theorem tree_invariant:
  assumes "reachable t"
  shows "everywhere node_invariant t \<and>
    (\<forall>verb pth handler mws d.
       destination t pth = Some d \<and> handlers d verb \<noteq> None \<longrightarrow>
       Route t verb pth handler mws = (t, Inl (NewRouteError verb pth ErrRouteAlreadyExists))) \<and>
    (\<forall>at g verb pth handler mws d.
       nodeAt t at = Some g \<and> destination g pth = Some d \<and> handlers d verb \<noteq> None \<longrightarrow>
       RouteAt t at verb pth handler mws =
         Some (t, Inl (NewRouteError verb pth ErrRouteAlreadyExists))) \<and>
    (\<forall>verb pth handler mws t' ref.
       Route t verb pth handler mws = (t', Inr ref) \<longrightarrow>
       (\<forall>d. destination t pth = Some d \<longrightarrow> handlers d verb = None) \<and>
       (\<exists>d'. destination t' pth = Some d' \<and> nodeAt t' ref = Some d' \<and>
             handlers d' verb = Some handler)) \<and>
    (\<forall>verb pth handler mws t' res ref a.
       Route t verb pth handler mws = (t', res) \<and> nodeAt t ref = Some a \<longrightarrow>
       (\<exists>a'. nodeAt t' ref = Some a' \<and> handlers a \<subseteq>\<^sub>m handlers a')) \<and>
    (\<forall>at verb pth handler mws t' res ref a.
       RouteAt t at verb pth handler mws = Some (t', res) \<and> nodeAt t ref = Some a \<longrightarrow>
       (\<exists>a'. nodeAt t' ref = Some a' \<and> handlers a \<subseteq>\<^sub>m handlers a'))"
proof -
  have shape: "everywhere node_invariant t"
  proof (rule everywhere_mono [where P = node_ok])
    show "node_invariant m" if "node_ok m" for m :: "('a, 'b) RouteNode"
      using that by (rule node_ok_invariant)
    show "everywhere node_ok t"
      using assms by (rule reachable_ok)
  qed
  have rejected: "Route g verb pth handler mws =
                    (g, Inl (NewRouteError verb pth ErrRouteAlreadyExists))"
    if "destination g pth = Some d" "handlers d verb \<noteq> None"
    for g d :: "('a, 'b) RouteNode" and verb pth handler mws
    using bound_rejected [OF that, of handler mws] by (simp add: Route_def)
  have rejected_at: "RouteAt t at verb pth handler mws =
                       Some (t, Inl (NewRouteError verb pth ErrRouteAlreadyExists))"
    if "nodeAt t at = Some g" "destination g pth = Some d" "handlers d verb \<noteq> None"
    for g d at verb pth handler mws
    using rejected [OF that(2,3), of handler mws] that(1)
    by (simp add: RouteAt_def putAt_id)
  have bound: "(\<forall>d. destination t pth = Some d \<longrightarrow> handlers d verb = None) \<and>
       (\<exists>d'. destination t' pth = Some d' \<and> nodeAt t' ref = Some d' \<and>
             handlers d' verb = Some handler)"
    if "Route t verb pth handler mws = (t', Inr ref)" for verb pth handler mws t' ref
  proof
    from that have add: "addRoute t verb pth handler mws = (t', Inr ref)"
      by (auto simp: Route_def split: prod.splits sum.splits)
    then show "\<exists>d'. destination t' pth = Some d' \<and> nodeAt t' ref = Some d' \<and>
             handlers d' verb = Some handler"
      by (rule addRoute_destination)
    show "\<forall>d. destination t pth = Some d \<longrightarrow> handlers d verb = None"
    proof (intro allI impI)
      fix d
      assume d: "destination t pth = Some d"
      show "handlers d verb = None"
      proof (rule ccontr)
        assume "handlers d verb \<noteq> None"
        from bound_rejected [OF d this, of handler mws] add show False
          by simp
      qed
    qed
  qed
  have kept_at: "\<exists>a'. nodeAt t' ref = Some a' \<and> handlers a \<subseteq>\<^sub>m handlers a'"
    if "RouteAt t at verb pth handler mws = Some (t', res)" "nodeAt t ref = Some a"
    for at verb pth handler mws t' res ref a
  proof -
    from that(1) obtain g g' res' where g: "nodeAt t at = Some g"
      and r: "Route g verb pth handler mws = (g', res')" and t': "t' = putAt t at g'"
      by (auto simp: RouteAt_def split: option.splits prod.splits)
    have "\<exists>a'. nodeAt (putAt t at g') ref = Some a' \<and> handlers a \<subseteq>\<^sub>m handlers a'"
      using Route_keeps [OF r] g that(2) by (rule putAt_keeps)
    then show ?thesis
      by (simp add: t')
  qed
  show ?thesis
    apply (intro conjI allI impI)
    subgoal by (rule shape)
    subgoal by (elim conjE) (rule rejected)
    subgoal by (elim conjE) (rule rejected_at)
    subgoal using bound by blast
    subgoal using bound by blast
    subgoal by (elim conjE) (rule Route_keeps)
    subgoal by (elim conjE) (rule kept_at)
    done
qed


theorem tree_invariant_witness:
  "reachable three_kinds_tree \<and> everywhere node_invariant three_kinds_tree \<and>
   map path (static three_kinds_tree) = [''users'', ''teams''] \<and>
   map routeType (children (static three_kinds_tree ! 0)) =
     [RouteTypeStatic, RouteTypeParam, RouteTypeWildcard] \<and>
   map path (children (static three_kinds_tree ! 0)) = [''admin'', ''{id}'', ''*rest''] \<and>
   map_option (\<lambda>d. handlers d ''GET'') (destination three_kinds_tree ''/users/{id}'') =
     Some (Some (Some ''param'')) \<and>
   Route three_kinds_tree ''GET'' ''/users/{id}'' (Some ''other'') [''x''] =
     (three_kinds_tree, Inl (NewRouteError ''GET'' ''/users/{id}'' ErrRouteAlreadyExists)) \<and>
   RouteAt three_kinds_tree [StaticChild 0] ''GET'' ''/{id}'' (Some ''other'') [''x''] =
     Some (three_kinds_tree, Inl (NewRouteError ''GET'' ''/{id}'' ErrRouteAlreadyExists)) \<and>
   map_option (\<lambda>a. handlers a ''GET'')
     (nodeAt three_kinds_tree [StaticChild 0, ParamChild]) = Some (Some (Some ''param'')) \<and>
   snd (Route three_kinds_tree ''PUT'' ''/users/{id}'' (Some ''put'') []) =
     Inr [StaticChild 0, ParamChild] \<and>
   map_option (\<lambda>a. handlers a ''GET'')
     (nodeAt (fst (Route three_kinds_tree ''PUT'' ''/users/{id}'' (Some ''put'') []))
        [StaticChild 0, ParamChild]) = Some (Some (Some ''param'')) \<and>
   map_option (\<lambda>d. handlers d ''PUT'') (destination three_kinds_tree ''/users/{id}'') =
     Some None \<and>
   map_option (\<lambda>d. handlers d ''PUT'')
     (destination (fst (Route three_kinds_tree ''PUT'' ''/users/{id}'' (Some ''put'') []))
        ''/users/{id}'') = Some (Some (Some ''put'')) \<and>
   (\<exists>t res. RouteAt three_kinds_tree [StaticChild 0] ''PUT'' ''/{id}'' (Some ''put'') [] =
        Some (t, res) \<and>
      map_option (\<lambda>a. handlers a ''GET'') (nodeAt t [StaticChild 0, ParamChild]) =
        Some (Some (Some ''param'')))"
proof -
  have r: "reachable three_kinds_tree"
    unfolding three_kinds_tree_def priority_tree_def fresh_root_def Let_def
    by (intro reachable_Route reachable.fresh)
  note inv = tree_invariant [OF r]
  have shape: "map path (static three_kinds_tree) = [''users'', ''teams''] \<and>
   map routeType (children (static three_kinds_tree ! 0)) =
     [RouteTypeStatic, RouteTypeParam, RouteTypeWildcard] \<and>
   map path (children (static three_kinds_tree ! 0)) = [''admin'', ''{id}'', ''*rest'']"
    by (simp add: three_kinds_tree_def priority_tree_def children_def eval_defs)
  obtain d where d: "destination three_kinds_tree ''/users/{id}'' = Some d"
    "handlers d ''GET'' = Some (Some ''param'')"
    by (simp add: three_kinds_tree_def priority_tree_def destination.simps eval_defs)
  obtain g where g: "nodeAt three_kinds_tree [StaticChild 0] = Some g"
    "destination g ''/{id}'' = Some d"
    using d by (simp add: three_kinds_tree_def priority_tree_def destination.simps eval_defs)
  obtain a where a: "nodeAt three_kinds_tree [StaticChild 0, ParamChild] = Some a"
    "handlers a ''GET'' = Some (Some ''param'')"
    by (simp add: three_kinds_tree_def priority_tree_def eval_defs)
  have put: "snd (Route three_kinds_tree ''PUT'' ''/users/{id}'' (Some ''put'') []) =
     Inr [StaticChild 0, ParamChild]"
    by (simp add: three_kinds_tree_def priority_tree_def eval_defs)
  note c2 = inv [THEN conjunct2]
  note c3 = c2 [THEN conjunct2]
  note c5 = c3 [THEN conjunct2, THEN conjunct2]
  from c2 [THEN conjunct1, rule_format, of "''/users/{id}''" d "''GET''"] d
  have rej: "Route three_kinds_tree ''GET'' ''/users/{id}'' (Some ''other'') [''x''] =
     (three_kinds_tree, Inl (NewRouteError ''GET'' ''/users/{id}'' ErrRouteAlreadyExists))"
    by simp
  from c3 [THEN conjunct1, rule_format, of "[StaticChild 0]" g "''/{id}''" d "''GET''"] g d
  have rej_at:
    "RouteAt three_kinds_tree [StaticChild 0] ''GET'' ''/{id}'' (Some ''other'') [''x''] =
     Some (three_kinds_tree, Inl (NewRouteError ''GET'' ''/{id}'' ErrRouteAlreadyExists))"
    by simp
  from c5 [THEN conjunct1, rule_format, OF conjI, OF prod.collapse [symmetric] a(1)]
  obtain a' where a':
    "nodeAt (fst (Route three_kinds_tree ''PUT'' ''/users/{id}'' (Some ''put'') []))
        [StaticChild 0, ParamChild] = Some a'" "handlers a \<subseteq>\<^sub>m handlers a'"
    by blast
  from a'(2) a(2) have kept: "handlers a' ''GET'' = Some (Some ''param'')"
    by (auto simp: map_le_def dom_def)
  obtain t' where t': "Route three_kinds_tree ''PUT'' ''/users/{id}'' (Some ''put'') [] =
                         (t', Inr [StaticChild 0, ParamChild])"
    using put by (metis prod.collapse)
  from c3 [THEN conjunct2, THEN conjunct1, rule_format, OF t'] d(1)
  obtain d' where unbound: "handlers d ''PUT'' = None"
    and d': "destination t' ''/users/{id}'' = Some d'" "handlers d' ''PUT'' = Some (Some ''put'')"
    by blast
  from t' d' have bound: "map_option (\<lambda>d. handlers d ''PUT'')
     (destination (fst (Route three_kinds_tree ''PUT'' ''/users/{id}'' (Some ''put'') []))
        ''/users/{id}'') = Some (Some (Some ''put''))"
    by simp
  have "\<exists>t'' res''. RouteAt three_kinds_tree [StaticChild 0] ''PUT'' ''/{id}'' (Some ''put'') [] =
          Some (t'', res'')"
    unfolding RouteAt_def g(1) by (simp add: split_beta)
  then obtain t'' res'' where at:
    "RouteAt three_kinds_tree [StaticChild 0] ''PUT'' ''/{id}'' (Some ''put'') [] = Some (t'', res'')"
    by blast
  from c5 [THEN conjunct2, rule_format, OF conjI, OF at a(1)]
  obtain a'' where a'': "nodeAt t'' [StaticChild 0, ParamChild] = Some a''"
    "handlers a \<subseteq>\<^sub>m handlers a''"
    by blast
  from a''(2) a(2) have "handlers a'' ''GET'' = Some (Some ''param'')"
    by (auto simp: map_le_def dom_def)
  with at a''(1) have kept_at:
    "\<exists>t res. RouteAt three_kinds_tree [StaticChild 0] ''PUT'' ''/{id}'' (Some ''put'') [] =
        Some (t, res) \<and>
      map_option (\<lambda>a. handlers a ''GET'') (nodeAt t [StaticChild 0, ParamChild]) =
        Some (Some (Some ''param''))"
    by simp
  from r inv shape d rej rej_at a put a'(1) kept unbound bound kept_at show ?thesis
    by simp
qed

text \<open>
  Claim C8. A successful lookup was matched at the end of a way down from the root (each
  node a child of the one before); the last node of that way binds the handler of the
  route for the verb, and the middleware chain of the route is the concatenation of the
  local middleware of the nodes on the way, the root first. So whatever a node carries
  comes before whatever its descendants carry, and nodes off the way contribute nothing.
\<close>

theorem middleware_chain_root_first:
  assumes "Find root verb pth = Inr r"
  shows "\<exists>nodes. descends root nodes \<and>
           handlers (last (root # nodes)) verb = Some (Handler r) \<and>
           Middlewares r = concat (map middlewares (root # nodes))"
proof -
  let ?route = "\<lparr>Method = verb, Path = pth, Handler = None, Middlewares = [],
                  PathParams = Map.empty\<rparr> :: ('a, 'b) Route"
  from assms have "find_node root [] ?route verb pth = (r, None)"
    by (auto simp: Find_def split: prod.splits option.splits)
  from find_node_chain [OF this] show ?thesis
    by simp
qed

theorem middleware_chain_root_first_witness:
  "Find mw_tree ''GET'' ''/api/status'' =
     Inr \<lparr>Method = ''GET'', Path = ''/api/status'', Handler = Some ''status'',
          Middlewares = [''auth'', ''log'', ''rate''], PathParams = Map.empty\<rparr> \<and>
   (\<exists>nodes. descends mw_tree nodes \<and>
      handlers (last (mw_tree # nodes)) ''GET'' = Some (Some ''status'') \<and>
      [''auth'', ''log'', ''rate''] = concat (map middlewares (mw_tree # nodes)))"
proof -
  have found: "Find mw_tree ''GET'' ''/api/status'' =
     Inr \<lparr>Method = ''GET'', Path = ''/api/status'', Handler = Some ''status'',
          Middlewares = [''auth'', ''log'', ''rate''], PathParams = Map.empty\<rparr>"
    by (simp add: mw_tree_def eval_defs)
  from found middleware_chain_root_first [OF found] show ?thesis
    by simp
qed

text \<open>
  Claim C9, as amended. Let the prefix and the path \<open>p\<close> meet with exactly one slash
  where both are not empty (\<open>meets\<close>), and let the verb not be empty. When
  \<open>Group(prefix)\<close> (no middleware, as \<open>Engine.Group\<close> calls it) succeeds on a tree and a
  route \<open>(verb, p)\<close> is registered on the node it returns, the registration ends as the
  registration of \<open>(verb, prefix + p)\<close> on the root of the first tree ends (the same node
  or the same error), the two resulting trees are the same once the entries of the empty
  verb are removed (\<open>Group\<close> leaves one, with a \<open>nil\<close> handler, at the group node), and
  \<open>Find\<close> returns the same on the two trees for every path and every verb that is not
  empty, \<open>(verb, prefix + p)\<close> among them.
\<close>

theorem group_registration:
  assumes "meets prefix p" and "verb \<noteq> []"
    and "Group t prefix [] = (t1, Inr g)"
    and "RouteAt t1 g verb p handler mws = Some (t2, res)"
  shows "\<exists>t3 res3. Route t verb (prefix @ p) handler mws = (t3, res3) \<and>
           map_sum Err id res3 = map_sum Err id res \<and>
           forget_empty_verb t2 = forget_empty_verb t3 \<and>
           (\<forall>v q. v \<noteq> [] \<longrightarrow> Find t2 v q = Find t3 v q)"
proof -
  from assms(3) have "addRoute t [] prefix None [] = (t1, Inr g)"
    by (auto simp: Group_def Route_def split: prod.splits sum.splits)
  from group_compose [OF assms(2,1) this, of handler mws] obtain gn where
    gn: "nodeAt t1 g = Some gn"
    and tree: "forget_empty_verb (putAt t1 g (fst (addRoute gn verb p handler mws))) =
               forget_empty_verb (fst (addRoute t verb (prefix @ p) handler mws))"
    and node: "map_sum id (\<lambda>c. g @ c) (snd (addRoute gn verb p handler mws)) =
               snd (addRoute t verb (prefix @ p) handler mws)"
    by blast
  let ?t3 = "fst (addRoute t verb (prefix @ p) handler mws)"
  let ?res3 = "map_sum (NewRouteError verb (prefix @ p)) id
                 (snd (addRoute t verb (prefix @ p) handler mws))"
  from assms(4) gn have t2: "t2 = putAt t1 g (fst (addRoute gn verb p handler mws))"
    and res: "res = map_sum id (\<lambda>c. g @ c)
                (map_sum (NewRouteError verb p) id (snd (addRoute gn verb p handler mws)))"
    by (simp_all add: RouteAt_def Route_addRoute)
  have "map_sum Err id res = map_sum id (\<lambda>c. g @ c) (snd (addRoute gn verb p handler mws))"
    unfolding res by (cases "snd (addRoute gn verb p handler mws)") simp_all
  with node have same: "map_sum Err id ?res3 = map_sum Err id res"
    by (simp add: Err_map_sum)
  from tree have forget: "forget_empty_verb t2 = forget_empty_verb ?t3"
    by (simp add: t2)
  have "Find t2 v q = Find ?t3 v q" if "v \<noteq> []" for v q
  proof -
    have "Find t2 v q = Find (forget_empty_verb t2) v q"
      using that by (simp add: Find_forget)
    also have "\<dots> = Find (forget_empty_verb ?t3) v q"
      by (simp add: forget)
    also have "\<dots> = Find ?t3 v q"
      using that by (simp add: Find_forget)
    finally show ?thesis .
  qed
  with same forget Route_addRoute [of t verb "prefix @ p" handler mws] show ?thesis
    by blast
qed

theorem group_registration_witness:
  "Group fresh_root ''/api/v1'' [] = (api_group, Inr [StaticChild 0, StaticChild 0]) \<and>
   RouteAt api_group [StaticChild 0, StaticChild 0] ''GET'' ''/status'' (Some ''status'') [''rate''] =
     Some (api_tree, Inr [StaticChild 0, StaticChild 0, StaticChild 0]) \<and>
   Find api_tree ''GET'' ''/api/v1/status'' =
     Find (fst (Route fresh_root ''GET'' ''/api/v1/status'' (Some ''status'') [''rate'']))
       ''GET'' ''/api/v1/status'' \<and>
   Find api_tree ''GET'' ''/api/v1/status'' =
     Inr \<lparr>Method = ''GET'', Path = ''/api/v1/status'', Handler = Some ''status'',
          Middlewares = [''rate''], PathParams = Map.empty\<rparr> \<and>
   Group fresh_root ''/api/'' [] = (api_only, Inr [StaticChild 0]) \<and>
   RouteAt api_only [StaticChild 0] ''GET'' ''status'' (Some ''status'') [] =
     Some (slashless_tree, Inr [StaticChild 0, StaticChild 0]) \<and>
   Find slashless_tree ''GET'' ''/api/status'' =
     Find (fst (Route fresh_root ''GET'' ''/api/status'' (Some ''status'') []))
       ''GET'' ''/api/status'' \<and>
   Find slashless_tree ''GET'' ''/api/status'' =
     Inr \<lparr>Method = ''GET'', Path = ''/api/status'', Handler = Some ''status'',
          Middlewares = [], PathParams = Map.empty\<rparr> \<and>
   snd (Group fresh_root [] []) = Inr [] \<and>
   map_option (\<lambda>(t2, res). (res, Find t2 ''GET'' ''status''))
     (RouteAt (fst (Group fresh_root [] [])) [] ''GET'' ''status'' (Some ''status'') []) =
     Some (Inr [StaticChild 0],
           Find (fst (Route fresh_root ''GET'' ''status'' (Some ''status'') [])) ''GET'' ''status'') \<and>
   Find (fst (Route fresh_root ''GET'' ''status'' (Some ''status'') [])) ''GET'' ''status'' =
     Inr \<lparr>Method = ''GET'', Path = ''status'', Handler = Some ''status'',
          Middlewares = [], PathParams = Map.empty\<rparr> \<and>
   map_option (\<lambda>(t2, res). (res, Find t2 ''GET'' ''/api/''))
     (RouteAt api_only [StaticChild 0] ''GET'' [] (Some ''index'') []) =
     Some (Inr [StaticChild 0],
           Find (fst (Route fresh_root ''GET'' ''/api/'' (Some ''index'') [])) ''GET'' ''/api/'') \<and>
   Find (fst (Route fresh_root ''GET'' ''/api/'' (Some ''index'') [])) ''GET'' ''/api/'' =
     Inr \<lparr>Method = ''GET'', Path = ''/api/'', Handler = Some ''index'',
          Middlewares = [], PathParams = Map.empty\<rparr>"
proof -
  have grp: "Group fresh_root ''/api/v1'' [] = (api_group, Inr [StaticChild 0, StaticChild 0])"
    by (simp add: api_group_def eval_defs)
  have reg: "RouteAt api_group [StaticChild 0, StaticChild 0] ''GET'' ''/status'' (Some ''status'')
               [''rate''] =
             Some (api_tree, Inr [StaticChild 0, StaticChild 0, StaticChild 0])"
    by (simp add: api_tree_def api_group_def eval_defs)
  have found: "Find api_tree ''GET'' ''/api/v1/status'' =
     Inr \<lparr>Method = ''GET'', Path = ''/api/v1/status'', Handler = Some ''status'',
          Middlewares = [''rate''], PathParams = Map.empty\<rparr>"
    by (simp add: api_tree_def api_group_def eval_defs)
  have m1: "meets ''/api/v1'' ''/status''"
    by (simp add: meets_def)
  from group_registration [OF m1 _ grp reg] obtain t3 res3 where
    "Route fresh_root ''GET'' (''/api/v1'' @ ''/status'') (Some ''status'') [''rate''] = (t3, res3)"
    "Find api_tree ''GET'' ''/api/v1/status'' = Find t3 ''GET'' ''/api/v1/status''"
    by auto
  then have one: "Find api_tree ''GET'' ''/api/v1/status'' =
     Find (fst (Route fresh_root ''GET'' ''/api/v1/status'' (Some ''status'') [''rate'']))
       ''GET'' ''/api/v1/status''"
    by simp
  have grp2: "Group fresh_root ''/api/'' [] = (api_only, Inr [StaticChild 0])"
    by (simp add: api_only_def eval_defs)
  have reg2: "RouteAt api_only [StaticChild 0] ''GET'' ''status'' (Some ''status'') [] =
     Some (slashless_tree, Inr [StaticChild 0, StaticChild 0])"
    by (simp add: slashless_tree_def api_only_def eval_defs)
  have found2: "Find slashless_tree ''GET'' ''/api/status'' =
     Inr \<lparr>Method = ''GET'', Path = ''/api/status'', Handler = Some ''status'',
          Middlewares = [], PathParams = Map.empty\<rparr>"
    by (simp add: slashless_tree_def api_only_def eval_defs)
  have m2: "meets ''/api/'' ''status''"
    by (simp add: meets_def)
  from group_registration [OF m2 _ grp2 reg2] obtain t3 res3 where
    "Route fresh_root ''GET'' (''/api/'' @ ''status'') (Some ''status'') [] = (t3, res3)"
    "Find slashless_tree ''GET'' ''/api/status'' = Find t3 ''GET'' ''/api/status''"
    by auto
  then have two: "Find slashless_tree ''GET'' ''/api/status'' =
     Find (fst (Route fresh_root ''GET'' ''/api/status'' (Some ''status'') []))
       ''GET'' ''/api/status''"
    by simp
  obtain r0 where grp3: "Group fresh_root [] [] = (r0, Inr [])"
    by (simp add: eval_defs)
  obtain t2 where reg3: "RouteAt r0 [] ''GET'' ''status'' (Some ''status'') [] =
                           Some (t2, Inr [StaticChild 0])"
    using grp3 by (auto simp: eval_defs)
  have m3: "meets [] ''status''"
    by (simp add: meets_def)
  from group_registration [OF m3 _ grp3 reg3] obtain t3 res3 where
    "Route fresh_root ''GET'' ([] @ ''status'') (Some ''status'') [] = (t3, res3)"
    "Find t2 ''GET'' ''status'' = Find t3 ''GET'' ''status''"
    by auto
  with grp3 reg3 have three: "snd (Group fresh_root [] []) = Inr [] \<and>
   map_option (\<lambda>(t2, res). (res, Find t2 ''GET'' ''status''))
     (RouteAt (fst (Group fresh_root [] [])) [] ''GET'' ''status'' (Some ''status'') []) =
     Some (Inr [StaticChild 0],
           Find (fst (Route fresh_root ''GET'' ''status'' (Some ''status'') [])) ''GET'' ''status'')"
    by simp
  have found3: "Find (fst (Route fresh_root ''GET'' ''status'' (Some ''status'') [])) ''GET'' ''status'' =
     Inr \<lparr>Method = ''GET'', Path = ''status'', Handler = Some ''status'',
          Middlewares = [], PathParams = Map.empty\<rparr>"
    by (simp add: eval_defs)
  obtain t4 where reg4: "RouteAt api_only [StaticChild 0] ''GET'' [] (Some ''index'') [] =
                           Some (t4, Inr [StaticChild 0])"
    by (simp add: api_only_def eval_defs)
  have m4: "meets ''/api/'' []"
    by (simp add: meets_def)
  from group_registration [OF m4 _ grp2 reg4] obtain t5 res5 where
    "Route fresh_root ''GET'' (''/api/'' @ []) (Some ''index'') [] = (t5, res5)"
    "Find t4 ''GET'' ''/api/'' = Find t5 ''GET'' ''/api/''"
    by auto
  with reg4 have four: "map_option (\<lambda>(t2, res). (res, Find t2 ''GET'' ''/api/''))
     (RouteAt api_only [StaticChild 0] ''GET'' [] (Some ''index'') []) =
     Some (Inr [StaticChild 0],
           Find (fst (Route fresh_root ''GET'' ''/api/'' (Some ''index'') [])) ''GET'' ''/api/'')"
    by simp
  have found4: "Find (fst (Route fresh_root ''GET'' ''/api/'' (Some ''index'') [])) ''GET'' ''/api/'' =
     Inr \<lparr>Method = ''GET'', Path = ''/api/'', Handler = Some ''index'',
          Middlewares = [], PathParams = Map.empty\<rparr>"
    by (simp add: eval_defs)
  from grp reg one found grp2 reg2 two found2 three found3 four found4 show ?thesis
    by (intro conjI) simp_all
qed

text \<open>
  Claim C9 as stated fails: registering on a group does not concatenate the two strings,
  it continues the descent from the group node. With the prefix \<open>/api\<close> and the path
  \<open>status\<close>, which meet with no slash, the route is registered below the node \<open>api\<close> and
  \<open>/apistatus\<close> is not found, while the direct registration of \<open>/apistatus\<close> makes it
  found.
\<close>

theorem group_registration_counterexample:
  "Group fresh_root ''/api'' [] = (api_only, Inr [StaticChild 0]) \<and>
   RouteAt api_only [StaticChild 0] ''GET'' ''status'' (Some ''status'') [] =
     Some (slashless_tree, Inr [StaticChild 0, StaticChild 0]) \<and>
   Find slashless_tree ''GET'' (''/api'' @ ''status'') =
     Inl (NewRouteError ''GET'' ''/apistatus'' ErrRouteNotFound) \<and>
   Find (fst (Route fresh_root ''GET'' (''/api'' @ ''status'') (Some ''status'') []))
     ''GET'' (''/api'' @ ''status'') =
     Inr \<lparr>Method = ''GET'', Path = ''/apistatus'', Handler = Some ''status'',
          Middlewares = [], PathParams = Map.empty\<rparr>"
  by (simp add: slashless_tree_def api_only_def eval_defs)

text \<open>
  Claim C10. Where a static child's text is the current segment, \<open>find\<close> returns what the
  lookup in the first such child returns, a failure included, and the parameter child and
  the wildcard child of the node play no part: the result is the same with any other
  parameter child and wildcard child (\<open>pa\<close>, \<open>wc\<close>) in their place.
\<close>

theorem static_match_commits:
  assumes "pth \<noteq> []" and "pth \<noteq> ''/''"
    and "getPathSegment (stripSlash pth) = (segment, remaining)"
    and "staticMatch segment (static n) = Some child"
  shows "find_node n parents route verb pth = find_node child (n # parents) route verb remaining \<and>
         find_node (set_param pa (set_wildcard wc n)) parents route verb pth =
           find_node n parents route verb pth"
proof -
  let ?n = "set_param pa (set_wildcard wc n)"
  have one: "find_node n parents route verb pth = find_node child (n # parents) route verb remaining"
    using assms by (rule find_node_static)
  have "staticMatch segment (static ?n) = Some child"
    using assms(4) by simp
  then have "find_node ?n parents route verb pth = find_node child (?n # parents) route verb remaining"
    by (rule find_node_static [OF assms(1-3)])
  also have "\<dots> = find_node child (n # parents) route verb remaining"
    by (rule find_node_parents_cong) simp
  finally show ?thesis
    using one by simp
qed

theorem static_match_commits_witness:
  "find_node (static commit_tree ! 0) [commit_tree]
     \<lparr>Method = ''GET'', Path = ''/users/admin'', Handler = None, Middlewares = [],
      PathParams = Map.empty\<rparr> ''GET'' ''/admin'' =
   find_node (static (static commit_tree ! 0) ! 0) [static commit_tree ! 0, commit_tree]
     \<lparr>Method = ''GET'', Path = ''/users/admin'', Handler = None, Middlewares = [],
      PathParams = Map.empty\<rparr> ''GET'' [] \<and>
   Find commit_tree ''GET'' ''/users/admin'' =
     Inl (NewRouteError ''GET'' ''/users/admin'' ErrRouteNotFound) \<and>
   Find commit_tree ''GET'' ''/users/bob'' =
     Inr \<lparr>Method = ''GET'', Path = ''/users/bob'', Handler = Some ''user'', Middlewares = [],
          PathParams = [''id'' \<mapsto> ''bob'']\<rparr>"
proof -
  have seg: "getPathSegment (stripSlash ''/admin'') = (''admin'', [])"
    by (simp add: eval_defs)
  have child: "staticMatch ''admin'' (static (static commit_tree ! 0)) =
                 Some (static (static commit_tree ! 0) ! 0)"
    by (simp add: commit_tree_def eval_defs)
  have admin: "Find commit_tree ''GET'' ''/users/admin'' =
     Inl (NewRouteError ''GET'' ''/users/admin'' ErrRouteNotFound)"
    by (simp add: commit_tree_def eval_defs)
  have bob: "Find commit_tree ''GET'' ''/users/bob'' =
     Inr \<lparr>Method = ''GET'', Path = ''/users/bob'', Handler = Some ''user'', Middlewares = [],
          PathParams = [''id'' \<mapsto> ''bob'']\<rparr>"
    by (simp add: commit_tree_def eval_defs)
  from static_match_commits [OF _ _ seg child] admin bob show ?thesis
    by simp
qed

end
